theory Spec2Isabelle
  imports Complex_Main "HOL-Library.Word" "HOL-Library.Log_Nat"
begin

section \<open>Floating-point arithmetic of the target platform\<close>

text \<open>
  The audio routines of \<^verbatim>\<open>audio_processor.cpp\<close> compute on C++ \<^verbatim>\<open>float\<close> (\<^verbatim>\<open>jfloat\<close>) and
  \<^verbatim>\<open>double\<close> values. On every Android ABI these are the IEEE 754 formats binary32 and
  binary64, each operation rounds its exact result to the nearest representable value, ties
  to the even significand, and expressions are evaluated in the precision of their operand
  types; a product and a sum are two operations, each rounded (no fused multiply-add). A
  floating-point value is modelled as the real number it denotes, an infinity, or NaN.

  The sign of a zero is not tracked. Only a division by zero could observe it, and the zero
  divisors of the source are positive zeros (integers converted to floating point, and
  \<open>rc + dt\<close> when the two cancel), except for a cutoff frequency of \<open>-0.0\<close>; there the sign of
  the infinite \<open>rc\<close> is lost again in \<open>alpha = rc / (rc + dt)\<close>, which is NaN for either sign.

  A value of type \<open>fp\<close> is a \<^verbatim>\<open>float\<close> (a \<^verbatim>\<open>double\<close>) when \<open>round32\<close> (\<open>round64\<close>)
  leaves it unchanged. Widening a \<^verbatim>\<open>float\<close> to \<^verbatim>\<open>double\<close> is exact and therefore the
  identity.
\<close>

datatype fp = Fin real | PInf | NInf | NaN

text \<open>\<open>ilog2 x\<close> is the binary exponent \<open>\<lfloor>log\<^sub>2 x\<rfloor>\<close> of a positive real.\<close>

definition ilog2 :: "real \<Rightarrow> int" where
  "ilog2 x = (if 1 \<le> x then bitlen \<lfloor>x\<rfloor> - 1 else - bitlen (\<lceil>1 / x\<rceil> - 1))"

text \<open>Rounding a real to the nearest integer, ties to even.\<close>

definition rne :: "real \<Rightarrow> int" where
  "rne z = (let f = \<lfloor>z\<rfloor>; d = z - of_int f in
     if d < 1 / 2 then f else if 1 / 2 < d then f + 1 else if even f then f else f + 1)"

text \<open>
  Rounding to a binary format with \<open>p\<close> significand bits and exponents \<open>emin .. emax\<close>:
  the spacing of representable numbers around \<open>x\<close> is \<open>2 ^ (e - p + 1)\<close>, where \<open>e\<close> is the
  exponent of \<open>x\<close>, and at least that of the subnormal numbers; a rounded result beyond the
  largest finite number becomes an infinity.
\<close>

definition round_unbounded :: "nat \<Rightarrow> int \<Rightarrow> real \<Rightarrow> real" where
  "round_unbounded p emin x =
     (let e = max (ilog2 \<bar>x\<bar>) emin;
          q = 2 powi (e - int p + 1)
      in of_int (rne (x / q)) * q)"

definition round_to :: "nat \<Rightarrow> int \<Rightarrow> int \<Rightarrow> real \<Rightarrow> fp" where
  "round_to p emin emax x =
     (let y = round_unbounded p emin x
      in if 2 powi (emax + 1) \<le> \<bar>y\<bar> then (if 0 < x then PInf else NInf) else Fin y)"

definition round32 :: "real \<Rightarrow> fp" where
  "round32 = round_to 24 (- 126) 127"

definition round64 :: "real \<Rightarrow> fp" where
  "round64 = round_to 53 (- 1022) 1023"

text \<open>
  The arithmetic operations take the rounding of the format they are performed in:
  \<open>fp_add round32\<close> is the addition of two \<^verbatim>\<open>float\<close>s, \<open>fp_add round64\<close> that of two
  \<^verbatim>\<open>double\<close>s.
\<close>

fun fp_neg :: "fp \<Rightarrow> fp" where
  "fp_neg (Fin x) = Fin (- x)"
| "fp_neg PInf = NInf"
| "fp_neg NInf = PInf"
| "fp_neg NaN = NaN"

fun fp_abs :: "fp \<Rightarrow> fp" where
  "fp_abs (Fin x) = Fin \<bar>x\<bar>"
| "fp_abs PInf = PInf"
| "fp_abs NInf = PInf"
| "fp_abs NaN = NaN"

fun fp_add :: "(real \<Rightarrow> fp) \<Rightarrow> fp \<Rightarrow> fp \<Rightarrow> fp" where
  "fp_add rnd (Fin x) (Fin y) = rnd (x + y)"
| "fp_add rnd NaN b = NaN"
| "fp_add rnd a NaN = NaN"
| "fp_add rnd PInf NInf = NaN"
| "fp_add rnd NInf PInf = NaN"
| "fp_add rnd PInf b = PInf"
| "fp_add rnd a PInf = PInf"
| "fp_add rnd NInf b = NInf"
| "fp_add rnd a NInf = NInf"

definition fp_sub :: "(real \<Rightarrow> fp) \<Rightarrow> fp \<Rightarrow> fp \<Rightarrow> fp" where
  "fp_sub rnd a b = fp_add rnd a (fp_neg b)"

text \<open>The sign of an infinite product or quotient, given the sign of the other operand.\<close>

definition inf_signed :: "bool \<Rightarrow> fp" where
  "inf_signed positive = (if positive then PInf else NInf)"

fun fp_mul :: "(real \<Rightarrow> fp) \<Rightarrow> fp \<Rightarrow> fp \<Rightarrow> fp" where
  "fp_mul rnd (Fin x) (Fin y) = rnd (x * y)"
| "fp_mul rnd NaN b = NaN"
| "fp_mul rnd a NaN = NaN"
| "fp_mul rnd PInf (Fin y) = (if y = 0 then NaN else inf_signed (0 < y))"
| "fp_mul rnd NInf (Fin y) = (if y = 0 then NaN else inf_signed (y < 0))"
| "fp_mul rnd (Fin x) PInf = (if x = 0 then NaN else inf_signed (0 < x))"
| "fp_mul rnd (Fin x) NInf = (if x = 0 then NaN else inf_signed (x < 0))"
| "fp_mul rnd PInf PInf = PInf"
| "fp_mul rnd NInf NInf = PInf"
| "fp_mul rnd PInf NInf = NInf"
| "fp_mul rnd NInf PInf = NInf"

fun fp_div :: "(real \<Rightarrow> fp) \<Rightarrow> fp \<Rightarrow> fp \<Rightarrow> fp" where
  "fp_div rnd (Fin x) (Fin y) =
     (if y = 0 then (if x = 0 then NaN else inf_signed (0 < x)) else rnd (x / y))"
| "fp_div rnd NaN b = NaN"
| "fp_div rnd a NaN = NaN"
| "fp_div rnd (Fin x) PInf = Fin 0"
| "fp_div rnd (Fin x) NInf = Fin 0"
| "fp_div rnd PInf (Fin y) = inf_signed (0 \<le> y)"
| "fp_div rnd NInf (Fin y) = inf_signed (y < 0)"
| "fp_div rnd PInf b = NaN"
| "fp_div rnd NInf b = NaN"

fun fp_sqrt :: "(real \<Rightarrow> fp) \<Rightarrow> fp \<Rightarrow> fp" where
  "fp_sqrt rnd (Fin x) = (if x < 0 then NaN else rnd (sqrt x))"
| "fp_sqrt rnd PInf = PInf"
| "fp_sqrt rnd NInf = NaN"
| "fp_sqrt rnd NaN = NaN"

text \<open>Comparisons; every comparison with NaN is false.\<close>

fun fp_less :: "fp \<Rightarrow> fp \<Rightarrow> bool" where
  "fp_less (Fin x) (Fin y) = (x < y)"
| "fp_less NaN b = False"
| "fp_less a NaN = False"
| "fp_less a NInf = False"
| "fp_less PInf b = False"
| "fp_less NInf b = True"
| "fp_less a PInf = True"

definition fp_eq :: "fp \<Rightarrow> fp \<Rightarrow> bool" where
  "fp_eq a b = (a \<noteq> NaN \<and> a = b)"

text \<open>
  Conversions. \<^verbatim>\<open>static_cast<jsize>\<close> of a \<^verbatim>\<open>double\<close> truncates towards zero and is undefined
  when the truncated value is not a 32-bit integer (\<open>None\<close>).
\<close>

definition int_to_float :: "int \<Rightarrow> fp" where
  "int_to_float n = round32 (of_int n)"

definition int_to_double :: "int \<Rightarrow> fp" where
  "int_to_double n = round64 (of_int n)"

fun double_to_float :: "fp \<Rightarrow> fp" where
  "double_to_float (Fin x) = round32 x"
| "double_to_float a = a"

fun double_to_jsize :: "fp \<Rightarrow> int option" where
  "double_to_jsize (Fin x) =
     (let t = (if 0 \<le> x then \<lfloor>x\<rfloor> else \<lceil>x\<rceil>)
      in if - (2 ^ 31) \<le> t \<and> t < 2 ^ 31 then Some t else None)"
| "double_to_jsize a = None"

text \<open>\<^verbatim>\<open>M_PI\<close> of \<^verbatim>\<open><cmath>\<close>: the \<^verbatim>\<open>double\<close> literal \<^verbatim>\<open>3.14159265358979323846\<close>.\<close>

definition M_PI :: fp where
  "M_PI = round64 (314159265358979323846 / 10 ^ 20)"

section \<open>The JNI environment\<close>

text \<open>
  The functions are JNI entry points: they receive array references and reach the elements
  through the \<^verbatim>\<open>JNIEnv\<close>. The environment holds the Java arrays (a reference is an index
  into the list of arrays of its element type), the outcome of the coming fallible JNI
  calls (\<open>True\<close>: the call returns \<^verbatim>\<open>nullptr\<close>), the number of calls that have failed, and
  the Android log.
\<close>

type_synonym jshort = "16 word"
type_synonym jint = "32 word"
type_synonym jref = nat

datatype log_level = LOG_INFO | LOG_ERROR | LOG_DEBUG

record jni_env =
  short_arrays :: "jshort list list"
  float_arrays :: "fp list list"
  failing :: "bool list"
  failures :: nat
  android_log :: "(log_level \<times> string) list"

text \<open>
  What a run can do other than return: use a reference that denotes no array, index an
  element buffer out of its bounds, convert an out-of-range \<^verbatim>\<open>double\<close> to \<^verbatim>\<open>jsize\<close>. All
  three are undefined behaviour in the source.
\<close>

datatype fault = InvalidReference | OutOfBounds | FloatToIntOverflow

definition LOGI :: "string \<Rightarrow> jni_env \<Rightarrow> jni_env" where
  "LOGI msg env = env\<lparr>android_log := android_log env @ [(LOG_INFO, msg)]\<rparr>"

definition LOGE :: "string \<Rightarrow> jni_env \<Rightarrow> jni_env" where
  "LOGE msg env = env\<lparr>android_log := android_log env @ [(LOG_ERROR, msg)]\<rparr>"

definition LOGD :: "string \<Rightarrow> jni_env \<Rightarrow> jni_env" where
  "LOGD msg env = env\<lparr>android_log := android_log env @ [(LOG_DEBUG, msg)]\<rparr>"

text \<open>The next fallible call takes its outcome from \<open>failing\<close>; an empty list means success.\<close>

definition next_call_fails :: "jni_env \<Rightarrow> bool \<times> jni_env" where
  "next_call_fails env =
     (case failing env of
        [] \<Rightarrow> (False, env)
      | b # bs \<Rightarrow> (b, env\<lparr>failing := bs, failures := (if b then Suc (failures env) else failures env)\<rparr>))"

definition GetShortArrayLength :: "jni_env \<Rightarrow> jref \<Rightarrow> nat option" where
  "GetShortArrayLength env a =
     (if a < length (short_arrays env) then Some (length (short_arrays env ! a)) else None)"

definition GetFloatArrayLength :: "jni_env \<Rightarrow> jref \<Rightarrow> nat option" where
  "GetFloatArrayLength env a =
     (if a < length (float_arrays env) then Some (length (float_arrays env ! a)) else None)"

text \<open>
  \<^verbatim>\<open>Get<Type>ArrayElements\<close> hands out a buffer with the elements of the array, or
  \<^verbatim>\<open>nullptr\<close>. The callers have checked the reference with \<^verbatim>\<open>GetArrayLength\<close> or have just
  created the array.
\<close>

definition GetShortArrayElements :: "jni_env \<Rightarrow> jref \<Rightarrow> jshort list option \<times> jni_env" where
  "GetShortArrayElements env a =
     (case next_call_fails env of
        (True, env') \<Rightarrow> (None, env')
      | (False, env') \<Rightarrow> (Some (short_arrays env' ! a), env'))"

definition GetFloatArrayElements :: "jni_env \<Rightarrow> jref \<Rightarrow> fp list option \<times> jni_env" where
  "GetFloatArrayElements env a =
     (case next_call_fails env of
        (True, env') \<Rightarrow> (None, env')
      | (False, env') \<Rightarrow> (Some (float_arrays env' ! a), env'))"

text \<open>
  \<^verbatim>\<open>NewFloatArray\<close> creates a zero-filled array; it returns \<^verbatim>\<open>nullptr\<close> when the array
  cannot be allocated, which includes a negative length.
\<close>

definition NewFloatArray :: "jni_env \<Rightarrow> int \<Rightarrow> jref option \<times> jni_env" where
  "NewFloatArray env n =
     (case next_call_fails env of
        (True, env') \<Rightarrow> (None, env')
      | (False, env') \<Rightarrow>
          if n < 0 then (None, env'\<lparr>failures := Suc (failures env')\<rparr>)
          else (Some (length (float_arrays env')),
                env'\<lparr>float_arrays := float_arrays env' @ [replicate (nat n) (Fin 0)]\<rparr>))"

text \<open>
  Releasing a buffer with mode \<^verbatim>\<open>0\<close> makes its contents the contents of the array; with
  \<^verbatim>\<open>JNI_ABORT\<close> the buffer is dropped and the array keeps the elements it had.
\<close>

datatype release_mode = COMMIT_AND_FREE | JNI_ABORT

definition ReleaseFloatArrayElements ::
  "jni_env \<Rightarrow> jref \<Rightarrow> fp list \<Rightarrow> release_mode \<Rightarrow> jni_env" where
  "ReleaseFloatArrayElements env a elems mode =
     (case mode of
        COMMIT_AND_FREE \<Rightarrow> env\<lparr>float_arrays := (float_arrays env)[a := elems]\<rparr>
      | JNI_ABORT \<Rightarrow> env)"

definition ReleaseShortArrayElements ::
  "jni_env \<Rightarrow> jref \<Rightarrow> jshort list \<Rightarrow> release_mode \<Rightarrow> jni_env" where
  "ReleaseShortArrayElements env a elems mode =
     (case mode of
        COMMIT_AND_FREE \<Rightarrow> env\<lparr>short_arrays := (short_arrays env)[a := elems]\<rparr>
      | JNI_ABORT \<Rightarrow> env)"

text \<open>Reading and writing an element buffer of the native code at an index.\<close>

definition rd :: "'a list \<Rightarrow> int \<Rightarrow> 'a option" where
  "rd xs i = (if 0 \<le> i \<and> i < int (length xs) then Some (xs ! nat i) else None)"

definition wr :: "'a list \<Rightarrow> int \<Rightarrow> 'a \<Rightarrow> 'a list option" where
  "wr xs i v = (if 0 \<le> i \<and> i < int (length xs) then Some (xs[nat i := v]) else None)"

section \<open>The audio routines\<close>

subsection \<open>pcm16ToFloat\<close>

text \<open>
  The loops of \<^verbatim>\<open>pcm16ToFloat\<close>, \<^verbatim>\<open>normalizeAudio\<close> and \<^verbatim>\<open>calculateRMS\<close>, and the writes of
  \<^verbatim>\<open>resampleAudio\<close>, index their buffers with the loop counter only, which the loop
  condition keeps below the length both buffers were created with; these accesses are
  written with \<open>!\<close> and list update. Every other access (a computed index, a neighbour of
  the loop counter, an index outside a loop) is written with \<open>rd\<close> and \<open>wr\<close>. The source's
  variable \<^verbatim>\<open>length\<close> is \<open>len\<close> here.
\<close>

definition pcm16_scale :: fp where
  "pcm16_scale = fp_div round32 (Fin 1) (Fin 32768)"

function pcm16_loop :: "jshort list \<Rightarrow> fp \<Rightarrow> nat \<Rightarrow> nat \<Rightarrow> fp list \<Rightarrow> fp list" where
  "pcm16_loop pcm scale len i float_data =
     (if i < len
      then pcm16_loop pcm scale len (Suc i)
             (float_data[i := fp_mul round32 (int_to_float (sint (pcm ! i))) scale])
      else float_data)"
  by pat_completeness auto
termination
  by (relation "measure (\<lambda>(pcm, scale, len, i, float_data). len - i)") auto

definition pcm16ToFloat :: "jni_env \<Rightarrow> jref \<Rightarrow> (fault + jref option) \<times> jni_env" where
  "pcm16ToFloat env pcm_data =
     (case GetShortArrayLength env pcm_data of
        None \<Rightarrow> (Inl InvalidReference, env)
      | Some len \<Rightarrow>
     (case GetShortArrayElements env pcm_data of
        (None, env1) \<Rightarrow> (Inr None, LOGE ''Failed to get PCM data'' env1)
      | (Some pcm, env1) \<Rightarrow>
     (case NewFloatArray env1 (int len) of
        (None, env2) \<Rightarrow>
          (Inr None,
           LOGE ''Failed to create float array''
             (ReleaseShortArrayElements env2 pcm_data pcm JNI_ABORT))
      | (Some float_array, env2) \<Rightarrow>
     (case GetFloatArrayElements env2 float_array of
        (None, env3) \<Rightarrow>
          (Inr None,
           LOGE ''Failed to get float array elements''
             (ReleaseShortArrayElements env3 pcm_data pcm JNI_ABORT))
      | (Some float_data, env3) \<Rightarrow>
          (let scale = pcm16_scale;
               float_data' = pcm16_loop pcm scale len 0 float_data;
               env4 = ReleaseFloatArrayElements env3 float_array float_data' COMMIT_AND_FREE;
               env5 = ReleaseShortArrayElements env4 pcm_data pcm JNI_ABORT
           in (Inr (Some float_array),
               LOGD ''Converted %d PCM16 samples to float'' env5))))))"

subsection \<open>resampleAudio\<close>

function resample_loop ::
  "fp list \<Rightarrow> int \<Rightarrow> fp \<Rightarrow> int \<Rightarrow> nat \<Rightarrow> fp list \<Rightarrow> fault + fp list" where
  "resample_loop source_audio source_length ratio target_length i target_audio =
     (if int i < target_length then
        (let source_index = fp_div round64 (int_to_double (int i)) ratio in
         case double_to_jsize source_index of
           None \<Rightarrow> Inl FloatToIntOverflow
         | Some index \<Rightarrow>
            (let fraction = fp_sub round64 source_index (int_to_double index) in
             if source_length - 1 \<le> index then
               (case rd source_audio (source_length - 1) of
                  None \<Rightarrow> Inl OutOfBounds
                | Some last_sample \<Rightarrow>
                    resample_loop source_audio source_length ratio target_length (Suc i)
                      (target_audio[i := last_sample]))
             else
               (case rd source_audio index of
                  None \<Rightarrow> Inl OutOfBounds
                | Some a \<Rightarrow>
               (case rd source_audio (index + 1) of
                  None \<Rightarrow> Inl OutOfBounds
                | Some b \<Rightarrow>
                    resample_loop source_audio source_length ratio target_length (Suc i)
                      (target_audio[i := double_to_float
                         (fp_add round64
                            (fp_mul round64 a (fp_sub round64 (Fin 1) fraction))
                            (fp_mul round64 b fraction))])))))
      else Inr target_audio)"
  by pat_completeness auto
termination
  by (relation "measure (\<lambda>(source_audio, source_length, ratio, target_length, i, target_audio).
        nat (target_length - int i))") auto

definition resampleAudio ::
  "jni_env \<Rightarrow> jref \<Rightarrow> jint \<Rightarrow> jint \<Rightarrow> (fault + jref option) \<times> jni_env" where
  "resampleAudio env audio_data source_rate target_rate =
     (if source_rate = target_rate then (Inr (Some audio_data), env) else
      case GetFloatArrayLength env audio_data of
        None \<Rightarrow> (Inl InvalidReference, env)
      | Some source_length \<Rightarrow>
     (case GetFloatArrayElements env audio_data of
        (None, env1) \<Rightarrow> (Inr None, LOGE ''Failed to get source audio data'' env1)
      | (Some source_audio, env1) \<Rightarrow>
     (let ratio = fp_div round64 (int_to_double (sint target_rate))
                    (int_to_double (sint source_rate)) in
      case double_to_jsize (fp_mul round64 (int_to_double (int source_length)) ratio) of
        None \<Rightarrow> (Inl FloatToIntOverflow, env1)
      | Some target_length \<Rightarrow>
     (case NewFloatArray env1 target_length of
        (None, env2) \<Rightarrow>
          (Inr None,
           LOGE ''Failed to create target array''
             (ReleaseFloatArrayElements env2 audio_data source_audio JNI_ABORT))
      | (Some target_array, env2) \<Rightarrow>
     (case GetFloatArrayElements env2 target_array of
        (None, env3) \<Rightarrow>
          (Inr None,
           LOGE ''Failed to get target array elements''
             (ReleaseFloatArrayElements env3 audio_data source_audio JNI_ABORT))
      | (Some target_audio, env3) \<Rightarrow>
     (case resample_loop source_audio (int source_length) ratio target_length 0 target_audio of
        Inl f \<Rightarrow> (Inl f, env3)
      | Inr target_audio' \<Rightarrow>
          (let env4 = ReleaseFloatArrayElements env3 target_array target_audio' COMMIT_AND_FREE;
               env5 = ReleaseFloatArrayElements env4 audio_data source_audio JNI_ABORT
           in (Inr (Some target_array),
               LOGI ''Resampled audio from %d Hz to %d Hz (%d -> %d samples)'' env5))))))))"

subsection \<open>highPassFilter\<close>

text \<open>
  This routine copies \<^verbatim>\<open>audio[0]\<close> to \<^verbatim>\<open>filtered[0]\<close> outside its loop, and the loop reads
  the elements before the loop counter. Every element access of the routine, inside and
  outside the loop, is therefore written with the checked \<open>rd\<close> and \<open>wr\<close>: an index out of
  the bounds of its buffer ends the run with the fault \<open>OutOfBounds\<close>.
\<close>

function highpass_loop ::
  "fp \<Rightarrow> fp list \<Rightarrow> nat \<Rightarrow> nat \<Rightarrow> fp list \<Rightarrow> fault + fp list" where
  "highpass_loop alpha audio len i filtered =
     (if i < len then
        (case rd filtered (int i - 1) of
           None \<Rightarrow> Inl OutOfBounds
         | Some previous \<Rightarrow>
        (case rd audio (int i) of
           None \<Rightarrow> Inl OutOfBounds
         | Some current \<Rightarrow>
        (case rd audio (int i - 1) of
           None \<Rightarrow> Inl OutOfBounds
         | Some before \<Rightarrow>
        (case wr filtered (int i)
                (fp_mul round32 alpha
                   (fp_sub round32 (fp_add round32 previous current) before)) of
           None \<Rightarrow> Inl OutOfBounds
         | Some filtered' \<Rightarrow> highpass_loop alpha audio len (Suc i) filtered'))))
      else Inr filtered)"
  by pat_completeness auto
termination
  by (relation "measure (\<lambda>(alpha, audio, len, i, filtered). len - i)") auto

text \<open>The filter coefficient; \<^verbatim>\<open>2.0f * M_PI * cutoff_freq\<close> and its reciprocal are \<^verbatim>\<open>double\<close>.\<close>

definition highpass_dt :: "jint \<Rightarrow> fp" where
  "highpass_dt sample_rate = fp_div round32 (Fin 1) (int_to_float (sint sample_rate))"

definition highpass_rc :: "fp \<Rightarrow> fp" where
  "highpass_rc cutoff_freq =
     double_to_float
       (fp_div round64 (Fin 1) (fp_mul round64 (fp_mul round64 (Fin 2) M_PI) cutoff_freq))"

definition highpass_alpha :: "fp \<Rightarrow> jint \<Rightarrow> fp" where
  "highpass_alpha cutoff_freq sample_rate =
     (let dt = highpass_dt sample_rate; rc = highpass_rc cutoff_freq
      in fp_div round32 rc (fp_add round32 rc dt))"

definition highPassFilter ::
  "jni_env \<Rightarrow> jref \<Rightarrow> fp \<Rightarrow> jint \<Rightarrow> (fault + jref option) \<times> jni_env" where
  "highPassFilter env audio_data cutoff_freq sample_rate =
     (case GetFloatArrayLength env audio_data of
        None \<Rightarrow> (Inl InvalidReference, env)
      | Some len \<Rightarrow>
     (case GetFloatArrayElements env audio_data of
        (None, env1) \<Rightarrow> (Inr None, LOGE ''Failed to get audio data'' env1)
      | (Some audio, env1) \<Rightarrow>
     (case NewFloatArray env1 (int len) of
        (None, env2) \<Rightarrow>
          (Inr None,
           LOGE ''Failed to create filtered array''
             (ReleaseFloatArrayElements env2 audio_data audio JNI_ABORT))
      | (Some filtered_array, env2) \<Rightarrow>
     (case GetFloatArrayElements env2 filtered_array of
        (None, env3) \<Rightarrow>
          (Inr None,
           LOGE ''Failed to get filtered array elements''
             (ReleaseFloatArrayElements env3 audio_data audio JNI_ABORT))
      | (Some filtered, env3) \<Rightarrow>
     (let alpha = highpass_alpha cutoff_freq sample_rate in
      case rd audio 0 of
        None \<Rightarrow> (Inl OutOfBounds, env3)
      | Some first \<Rightarrow>
     (case wr filtered 0 first of
        None \<Rightarrow> (Inl OutOfBounds, env3)
      | Some filtered0 \<Rightarrow>
     (case highpass_loop alpha audio len 1 filtered0 of
        Inl f \<Rightarrow> (Inl f, env3)
      | Inr filtered' \<Rightarrow>
          (let env4 = ReleaseFloatArrayElements env3 filtered_array filtered' COMMIT_AND_FREE;
               env5 = ReleaseFloatArrayElements env4 audio_data audio JNI_ABORT
           in (Inr (Some filtered_array),
               LOGD ''Applied high-pass filter with cutoff %.1f Hz'' env5)))))))))"

subsection \<open>normalizeAudio\<close>

function max_abs_loop :: "fp list \<Rightarrow> nat \<Rightarrow> nat \<Rightarrow> fp \<Rightarrow> fp" where
  "max_abs_loop audio len i max_val =
     (if i < len
      then (let abs_val = fp_abs (audio ! i)
            in max_abs_loop audio len (Suc i)
                 (if fp_less max_val abs_val then abs_val else max_val))
      else max_val)"
  by pat_completeness auto
termination
  by (relation "measure (\<lambda>(audio, len, i, max_val). len - i)") auto

function normalize_loop :: "fp list \<Rightarrow> fp \<Rightarrow> nat \<Rightarrow> nat \<Rightarrow> fp list \<Rightarrow> fp list" where
  "normalize_loop audio scale len i normalized =
     (if i < len
      then normalize_loop audio scale len (Suc i)
             (normalized[i := fp_mul round32 (audio ! i) scale])
      else normalized)"
  by pat_completeness auto
termination
  by (relation "measure (\<lambda>(audio, scale, len, i, normalized). len - i)") auto

definition normalizeAudio ::
  "jni_env \<Rightarrow> jref \<Rightarrow> fp \<Rightarrow> (fault + jref option) \<times> jni_env" where
  "normalizeAudio env audio_data target_level =
     (case GetFloatArrayLength env audio_data of
        None \<Rightarrow> (Inl InvalidReference, env)
      | Some len \<Rightarrow>
     (case GetFloatArrayElements env audio_data of
        (None, env1) \<Rightarrow> (Inr None, LOGE ''Failed to get audio data'' env1)
      | (Some audio, env1) \<Rightarrow>
     (let max_val = max_abs_loop audio len 0 (Fin 0) in
      if fp_eq max_val (Fin 0)
      then (Inr (Some audio_data), ReleaseFloatArrayElements env1 audio_data audio JNI_ABORT)
      else
      case NewFloatArray env1 (int len) of
        (None, env2) \<Rightarrow>
          (Inr None,
           LOGE ''Failed to create normalized array''
             (ReleaseFloatArrayElements env2 audio_data audio JNI_ABORT))
      | (Some normalized_array, env2) \<Rightarrow>
     (case GetFloatArrayElements env2 normalized_array of
        (None, env3) \<Rightarrow>
          (Inr None,
           LOGE ''Failed to get normalized array elements''
             (ReleaseFloatArrayElements env3 audio_data audio JNI_ABORT))
      | (Some normalized, env3) \<Rightarrow>
          (let scale = fp_div round32 target_level max_val;
               normalized' = normalize_loop audio scale len 0 normalized;
               env4 = ReleaseFloatArrayElements env3 normalized_array normalized'
                        COMMIT_AND_FREE;
               env5 = ReleaseFloatArrayElements env4 audio_data audio JNI_ABORT
           in (Inr (Some normalized_array),
               LOGD ''Normalized audio: max %.3f -> %.3f (scale: %.3f)'' env5))))))"

subsection \<open>calculateRMS\<close>

text \<open>
  \<^verbatim>\<open>audio[i] * audio[i]\<close> is a \<^verbatim>\<open>float\<close> product; it is widened and added to the
  \<^verbatim>\<open>double\<close> accumulator. The quotient and the square root are \<^verbatim>\<open>double\<close>, the result
  is narrowed to \<^verbatim>\<open>float\<close>.
\<close>

function sum_squares_loop :: "fp list \<Rightarrow> nat \<Rightarrow> nat \<Rightarrow> fp \<Rightarrow> fp" where
  "sum_squares_loop audio len i sum_squares =
     (if i < len
      then sum_squares_loop audio len (Suc i)
             (fp_add round64 sum_squares (fp_mul round32 (audio ! i) (audio ! i)))
      else sum_squares)"
  by pat_completeness auto
termination
  by (relation "measure (\<lambda>(audio, len, i, sum_squares). len - i)") auto

definition calculateRMS :: "jni_env \<Rightarrow> jref \<Rightarrow> (fault + fp) \<times> jni_env" where
  "calculateRMS env audio_data =
     (case GetFloatArrayLength env audio_data of
        None \<Rightarrow> (Inl InvalidReference, env)
      | Some len \<Rightarrow>
     (case GetFloatArrayElements env audio_data of
        (None, env1) \<Rightarrow> (Inr (Fin 0), LOGE ''Failed to get audio data'' env1)
      | (Some audio, env1) \<Rightarrow>
          (let sum_squares = sum_squares_loop audio len 0 (Fin 0);
               rms = double_to_float
                       (fp_sqrt round64 (fp_div round64 sum_squares (int_to_double (int len))));
               env2 = ReleaseFloatArrayElements env1 audio_data audio JNI_ABORT
           in (Inr rms, env2))))"

section \<open>The formulas of the specification\<close>

text \<open>
  The high-pass recurrence as the specification words it (section 4.3): the first output
  sample is the first input sample, every later one is
  \<open>alpha * (filtered[i-1] + input[i] - input[i-1])\<close>, in \<^verbatim>\<open>float\<close> arithmetic from left to
  right. It is compared with the loop of \<^verbatim>\<open>highPassFilter\<close> below.
\<close>

fun highpass_recurrence :: "fp \<Rightarrow> fp list \<Rightarrow> nat \<Rightarrow> fp" where
  "highpass_recurrence alpha input 0 = input ! 0"
| "highpass_recurrence alpha input (Suc i) =
     fp_mul round32 alpha
       (fp_sub round32 (fp_add round32 (highpass_recurrence alpha input i) (input ! Suc i))
          (input ! i))"

text \<open>
  One output sample of the resampler as the specification words it (section 4.2): the source
  index \<open>i / ratio\<close>, its integer part \<open>index\<close> and its fractional part, the clamp to the
  last sample and the interpolation, with the conversion and the accesses that can fail.
\<close>

definition resample_sample :: "fp list \<Rightarrow> fp \<Rightarrow> nat \<Rightarrow> fault + fp" where
  "resample_sample input ratio i =
     (let source_index = fp_div round64 (int_to_double (int i)) ratio in
      case double_to_jsize source_index of
        None \<Rightarrow> Inl FloatToIntOverflow
      | Some index \<Rightarrow>
         (let fraction = fp_sub round64 source_index (int_to_double index) in
          if int (length input) - 1 \<le> index then
            (case rd input (int (length input) - 1) of
               None \<Rightarrow> Inl OutOfBounds
             | Some v \<Rightarrow> Inr v)
          else
            (case rd input index of
               None \<Rightarrow> Inl OutOfBounds
             | Some a \<Rightarrow>
            (case rd input (index + 1) of
               None \<Rightarrow> Inl OutOfBounds
             | Some b \<Rightarrow>
                 Inr (double_to_float
                        (fp_add round64
                           (fp_mul round64 a (fp_sub round64 (Fin 1) fraction))
                           (fp_mul round64 b fraction)))))))"

text \<open>The value of the output sample \<open>i\<close>, given \<open>index\<close>.\<close>

definition interpolate :: "fp list \<Rightarrow> fp \<Rightarrow> nat \<Rightarrow> int \<Rightarrow> fp" where
  "interpolate input ratio i index =
     (if int (length input) - 1 \<le> index then input ! (length input - 1)
      else (let source_index = fp_div round64 (int_to_double (int i)) ratio;
                fraction = fp_sub round64 source_index (int_to_double index)
            in double_to_float
                 (fp_add round64
                    (fp_mul round64 (input ! nat index) (fp_sub round64 (Fin 1) fraction))
                    (fp_mul round64 (input ! nat (index + 1)) fraction))))"

text \<open>
  The sum of squares that the loop of \<^verbatim>\<open>calculateRMS\<close> computes, as a fold: every square is
  the \<^verbatim>\<open>float\<close> product of the source, the sum is accumulated in \<^verbatim>\<open>double\<close>, from the first
  sample to the last.
\<close>

definition sum_of_squares :: "fp list \<Rightarrow> fp" where
  "sum_of_squares audio =
     foldl (\<lambda>sum_squares x. fp_add round64 sum_squares (fp_mul round32 x x)) (Fin 0) audio"

text \<open>
  The energy meter as the specification words it (section 4.5): the squares of the samples
  are summed in double precision, whatever the precision the samples are stored in, and the
  result is \<open>sqrt (sum_squares / N)\<close>, returned as a \<^verbatim>\<open>float\<close>. The square of a \<^verbatim>\<open>float\<close> is
  exactly representable in \<^verbatim>\<open>double\<close>. It is compared with \<^verbatim>\<open>calculateRMS\<close> below.
\<close>

definition specified_sum_of_squares :: "fp list \<Rightarrow> fp" where
  "specified_sum_of_squares input =
     foldl (\<lambda>sum_squares x. fp_add round64 sum_squares (fp_mul round64 x x)) (Fin 0) input"

definition specified_rms :: "fp list \<Rightarrow> fp" where
  "specified_rms input =
     double_to_float
       (fp_sqrt round64
          (fp_div round64 (specified_sum_of_squares input) (int_to_double (int (length input)))))"

text \<open>The peak absolute value of a sequence of numbers (0 for the empty sequence).\<close>

definition peak_abs :: "real list \<Rightarrow> real" where
  "peak_abs ys = foldl (\<lambda>m y. max m \<bar>y\<bar>) 0 ys"

section \<open>Observing a run\<close>

text \<open>No JNI call of the run is going to fail.\<close>

definition no_failure :: "jni_env \<Rightarrow> bool" where
  "no_failure env = (True \<notin> set (failing env))"

text \<open>The elements of the array a run has returned, if it returned one.\<close>

definition returned_floats :: "(fault + jref option) \<times> jni_env \<Rightarrow> fp list option" where
  "returned_floats out =
     (case out of
        (Inr (Some a), env') \<Rightarrow>
          if a < length (float_arrays env') then Some (float_arrays env' ! a) else None
      | _ \<Rightarrow> None)"

text \<open>
  The arrays that exist before a run are the same after it: the \<^verbatim>\<open>short\<close> arrays are
  unchanged, and so is every \<^verbatim>\<open>float\<close> array that existed.
\<close>

definition arrays_preserved :: "jni_env \<Rightarrow> jni_env \<Rightarrow> bool" where
  "arrays_preserved env env' =
     (short_arrays env' = short_arrays env \<and>
      take (length (float_arrays env)) (float_arrays env') = float_arrays env)"

text \<open>An environment with one array of each element type, for concrete runs.\<close>

definition env_of :: "jshort list \<Rightarrow> fp list \<Rightarrow> bool list \<Rightarrow> jni_env" where
  "env_of pcm audio fails =
     \<lparr>short_arrays = [pcm], float_arrays = [audio], failing = fails, failures = 0,
      android_log = []\<rparr>"

section \<open>Properties of the arithmetic\<close>

lemma ilog2_bounds:
  assumes "0 < x"
  shows "2 powi ilog2 x \<le> x \<and> x < 2 powi (ilog2 x + 1)"
proof (cases "1 \<le> x")
  case True
  define n where "n = \<lfloor>x\<rfloor>"
  have n: "0 < n" "of_int n \<le> x" "x < of_int n + 1"
    using True by (auto simp: n_def)
  have bl: "1 \<le> bitlen n"
    using n(1) bitlen_eq_zero_iff [of n] bitlen_nonneg [of n] by linarith
  from bitlen_bounds [OF n(1)] have b: "2 ^ nat (bitlen n - 1) \<le> n" "n + 1 \<le> 2 ^ nat (bitlen n)"
    by auto
  have lo: "(2::real) powi (bitlen n - 1) \<le> of_int n"
  proof -
    have "(2::real) powi (bitlen n - 1) = of_int (2 ^ nat (bitlen n - 1))"
      using bl by (simp add: power_int_nonneg_exp)
    also have "\<dots> \<le> of_int n" using b(1) by (simp only: of_int_le_iff)
    finally show ?thesis .
  qed
  have hi: "of_int n + 1 \<le> (2::real) powi (bitlen n)"
  proof -
    have "of_int n + 1 = (of_int (n + 1) :: real)" by simp
    also have "\<dots> \<le> of_int (2 ^ nat (bitlen n))" using b(2) by (simp only: of_int_le_iff)
    also have "\<dots> = (2::real) powi (bitlen n)"
      using bl by (simp add: power_int_nonneg_exp)
    finally show ?thesis .
  qed
  have "ilog2 x = bitlen n - 1" using True by (simp add: ilog2_def n_def)
  then show ?thesis using lo hi n by simp
next
  case False
  define y where "y = 1 / x"
  define c where "c = \<lceil>y\<rceil> - 1"
  have y: "1 < y" using False assms by (simp add: y_def)
  have c: "0 < c" "of_int c < y" "y \<le> of_int c + 1"
    using y by (auto simp: c_def) linarith+
  have bl: "1 \<le> bitlen c"
    using c(1) bitlen_eq_zero_iff [of c] bitlen_nonneg [of c] by linarith
  from bitlen_bounds [OF c(1)] have b: "2 ^ nat (bitlen c - 1) \<le> c" "c + 1 \<le> 2 ^ nat (bitlen c)"
    by auto
  have lo: "(2::real) powi (bitlen c - 1) < y"
  proof -
    have "(2::real) powi (bitlen c - 1) = of_int (2 ^ nat (bitlen c - 1))"
      using bl by (simp add: power_int_nonneg_exp)
    also have "\<dots> \<le> of_int c" using b(1) by (simp only: of_int_le_iff)
    finally show ?thesis using c(2) by simp
  qed
  have hi: "y \<le> (2::real) powi (bitlen c)"
  proof -
    have "y \<le> (of_int (c + 1) :: real)" using c(3) by simp
    also have "\<dots> \<le> of_int (2 ^ nat (bitlen c))" using b(2) by (simp only: of_int_le_iff)
    also have "\<dots> = (2::real) powi (bitlen c)"
      using bl by (simp add: power_int_nonneg_exp)
    finally show ?thesis .
  qed
  have il: "ilog2 x = - bitlen c" using False by (simp add: ilog2_def c_def y_def)
  have x: "x = 1 / y" by (simp add: y_def)
  have "2 powi (- bitlen c) \<le> x"
    unfolding x power_int_minus_divide using hi y
    by (intro divide_left_mono) (auto intro: mult_pos_pos)
  moreover have "x < 2 powi (- bitlen c + 1)"
  proof -
    have "1 / y < 1 / 2 powi (bitlen c - 1)"
      using lo y by (intro divide_strict_left_mono) (auto intro!: mult_pos_pos)
    also have "\<dots> = 2 powi (- (bitlen c - 1))" by (rule power_int_minus_divide [symmetric])
    also have "- (bitlen c - 1) = - bitlen c + 1" by simp
    finally show ?thesis by (simp only: x)
  qed
  ultimately show ?thesis by (simp add: il)
qed

lemma two_powi_le_iff: "(2::real) powi a \<le> 2 powi b \<longleftrightarrow> a \<le> b"
proof
  assume le: "(2::real) powi a \<le> 2 powi b"
  show "a \<le> b"
  proof (rule ccontr)
    assume "\<not> a \<le> b"
    then have "(2::real) powi b < 2 powi a" by (intro power_int_strict_increasing) auto
    with le show False by simp
  qed
next
  assume "a \<le> b"
  then show "(2::real) powi a \<le> 2 powi b" by (intro power_int_increasing) auto
qed

lemma two_powi_less_iff: "(2::real) powi a < 2 powi b \<longleftrightarrow> a < b"
  using two_powi_le_iff [of b a] by (auto simp: not_le [symmetric])

lemma ilog2_eqI:
  assumes "2 powi k \<le> x" "x < 2 powi (k + 1)"
  shows "ilog2 x = k"
proof -
  have pos: "0 < x" using assms(1) by (rule less_le_trans [rotated]) simp
  from ilog2_bounds [OF pos] have b: "2 powi ilog2 x \<le> x" "x < 2 powi (ilog2 x + 1)" by auto
  have "(2::real) powi k < 2 powi (ilog2 x + 1)" using assms(1) b(2) by linarith
  then have "k < ilog2 x + 1" by (simp only: two_powi_less_iff)
  moreover have "(2::real) powi ilog2 x < 2 powi (k + 1)" using assms(2) b(1) by linarith
  then have "ilog2 x < k + 1" by (simp only: two_powi_less_iff)
  ultimately show ?thesis by linarith
qed

lemma rne_of_int: "rne (of_int n) = n"
  by (simp add: rne_def)

lemma rne_error: "\<bar>of_int (rne z) - z\<bar> \<le> 1 / 2"
proof -
  have "of_int \<lfloor>z\<rfloor> \<le> z" "z < of_int \<lfloor>z\<rfloor> + 1" by linarith+
  then show ?thesis unfolding rne_def Let_def by (auto simp: abs_le_iff)
qed

lemma rne_bounds: "of_int \<lfloor>z\<rfloor> \<le> (of_int (rne z) :: real)" "rne z \<le> \<lfloor>z\<rfloor> + 1"
  unfolding rne_def Let_def by auto

lemma rne_mono:
  assumes "z \<le> w"
  shows "rne z \<le> rne w"
proof (cases "\<lfloor>z\<rfloor> = \<lfloor>w\<rfloor>")
  case True
  have "z - of_int \<lfloor>z\<rfloor> \<le> w - of_int \<lfloor>w\<rfloor>" using assms True by simp
  then show ?thesis unfolding rne_def Let_def True by auto
next
  case False
  have "\<lfloor>z\<rfloor> \<le> \<lfloor>w\<rfloor>" using assms by (rule floor_mono)
  with False have "\<lfloor>z\<rfloor> + 1 \<le> \<lfloor>w\<rfloor>" by simp
  moreover have "rne z \<le> \<lfloor>z\<rfloor> + 1" by (rule rne_bounds)
  moreover have "\<lfloor>w\<rfloor> \<le> rne w" using rne_bounds(1) [of w] by simp
  ultimately show ?thesis by linarith
qed

lemma rne_minus: "rne (- z) = - rne z"
proof (cases "z = of_int \<lfloor>z\<rfloor>")
  case True
  then obtain n where "z = of_int n" ..
  then show ?thesis using rne_of_int [of "- n"] rne_of_int [of n] by simp
next
  case False
  have fl: "of_int \<lfloor>z\<rfloor> < z" "z < of_int \<lfloor>z\<rfloor> + 1" using False by linarith+
  have "\<lfloor>- z\<rfloor> = - \<lfloor>z\<rfloor> - 1"
  proof (rule floor_unique)
    show "of_int (- \<lfloor>z\<rfloor> - 1) \<le> - z" using fl by (simp; linarith)
    show "- z < of_int (- \<lfloor>z\<rfloor> - 1) + 1" using fl by (simp; linarith)
  qed
  then show ?thesis unfolding rne_def Let_def using fl by auto
qed

text \<open>A number with a significand of at most \<open>p\<close> bits and an exponent in range is
  representable: rounding leaves it unchanged.\<close>

lemma round_to_exact:
  assumes m: "\<bar>m\<bar> < 2 ^ p" and j: "emin - int p + 1 \<le> j"
    and r: "\<bar>of_int m * 2 powi j\<bar> < (2::real) powi (emax + 1)"
  shows "round_to p emin emax (of_int m * 2 powi j) = Fin (of_int m * 2 powi j)"
proof (cases "m = 0")
  case True
  then show ?thesis by (simp add: round_to_def round_unbounded_def Let_def rne_def not_le)
next
  case False
  define x :: real where "x = of_int m * 2 powi j"
  define e where "e = max (ilog2 \<bar>x\<bar>) emin"
  have ax: "\<bar>x\<bar> = of_int \<bar>m\<bar> * 2 powi j" by (simp add: x_def abs_mult)
  have pos: "0 < \<bar>x\<bar>" using False by (simp add: x_def)
  have "\<bar>x\<bar> < 2 ^ p * 2 powi j"
  proof -
    have "(of_int \<bar>m\<bar> :: real) < of_int (2 ^ p)" using m by (simp only: of_int_less_iff)
    then show ?thesis unfolding ax by (intro mult_strict_right_mono) auto
  qed
  also have "\<dots> = 2 powi (int p + j)" by (simp add: power_int_add)
  finally have up: "\<bar>x\<bar> < 2 powi (int p + j)" .
  have "2 powi ilog2 \<bar>x\<bar> \<le> \<bar>x\<bar>" using ilog2_bounds [OF pos] by simp
  with up have "(2::real) powi ilog2 \<bar>x\<bar> < 2 powi (int p + j)" by linarith
  then have "ilog2 \<bar>x\<bar> < int p + j" by (simp only: two_powi_less_iff)
  with j have e: "e - int p + 1 \<le> j" by (simp add: e_def)
  define d where "d = nat (j - (e - int p + 1))"
  have "x / 2 powi (e - int p + 1) = of_int m * 2 powi (j - (e - int p + 1))"
    by (simp add: x_def power_int_diff)
  also have "\<dots> = of_int (m * 2 ^ d)"
    using e by (simp add: d_def power_int_nonneg_exp)
  finally have q: "x / 2 powi (e - int p + 1) = of_int (m * 2 ^ d)" .
  have "of_int (rne (x / 2 powi (e - int p + 1))) * 2 powi (e - int p + 1) = x"
    unfolding q rne_of_int unfolding q [symmetric] by simp
  then show ?thesis
    using r unfolding round_to_def round_unbounded_def Let_def x_def [symmetric] e_def [symmetric]
    by simp
qed

lemma round32_int: "\<bar>n\<bar> \<le> 2 ^ 24 \<Longrightarrow> round32 (of_int n) = Fin (of_int n)"
proof (cases "\<bar>n\<bar> = 2 ^ 24")
  case True
  then have "n = 2 ^ 24 \<or> n = - (2 ^ 24)" by linarith
  then show ?thesis
    using round_to_exact [of 1 24 "- 126" 24 127] round_to_exact [of "- 1" 24 "- 126" 24 127]
    by (auto simp: round32_def)
next
  case False
  assume "\<bar>n\<bar> \<le> 2 ^ 24"
  with False have lt: "\<bar>n\<bar> < 2 ^ 24" by simp
  then have "\<bar>real_of_int n\<bar> < 2 ^ 24"
    by (metis of_int_abs of_int_less_numeral_power_cancel_iff)
  then have "\<bar>real_of_int n\<bar> < 2 ^ 128" by simp
  with lt show ?thesis
    using round_to_exact [of n 24 "- 126" 0 127] by (simp add: round32_def)
qed

lemma round64_int: "\<bar>n\<bar> \<le> 2 ^ 53 \<Longrightarrow> round64 (of_int n) = Fin (of_int n)"
proof (cases "\<bar>n\<bar> = 2 ^ 53")
  case True
  then have "n = 2 ^ 53 \<or> n = - (2 ^ 53)" by linarith
  then show ?thesis
    using round_to_exact [of 1 53 "- 1022" 53 1023] round_to_exact [of "- 1" 53 "- 1022" 53 1023]
    by (auto simp: round64_def)
next
  case False
  assume "\<bar>n\<bar> \<le> 2 ^ 53"
  with False have lt: "\<bar>n\<bar> < 2 ^ 53" by simp
  then have "\<bar>real_of_int n\<bar> < 2 ^ 53"
    by (metis of_int_abs of_int_less_numeral_power_cancel_iff)
  then have "\<bar>real_of_int n\<bar> < 2 ^ 1024" by simp
  with lt show ?thesis
    using round_to_exact [of n 53 "- 1022" 0 1023] by (simp add: round64_def)
qed

lemma rne_unique:
  assumes "\<bar>z - of_int n\<bar> < 1 / 2"
  shows "rne z = n"
proof (cases "of_int n \<le> z")
  case True
  then have "\<lfloor>z\<rfloor> = n" using assms by (intro floor_unique) auto
  then show ?thesis using assms True by (simp add: rne_def Let_def)
next
  case False
  then have "\<lfloor>z\<rfloor> = n - 1" using assms by (intro floor_unique) auto
  then show ?thesis using assms False by (simp add: rne_def Let_def)
qed

lemma rne_tie:
  assumes "z = of_int f + 1 / 2"
  shows "rne z = (if even f then f else f + 1)"
proof -
  have "\<lfloor>z\<rfloor> = f" unfolding assms by (intro floor_unique) auto
  then show ?thesis by (simp add: rne_def Let_def assms)
qed

text \<open>
  Evaluating a rounding at a concrete number: given the exponent \<open>e0\<close> of \<open>x\<close> and the
  integer \<open>n\<close> nearest to \<open>x / q\<close>, the rounded value is \<open>n * q\<close>.
\<close>

lemma round_to_certificate:
  assumes e0: "2 powi e0 \<le> \<bar>x\<bar>" "\<bar>x\<bar> < 2 powi (e0 + 1)"
    and q: "q = 2 powi (max e0 emin - int p + 1)"
    and n: "\<bar>x / q - of_int n\<bar> < 1 / 2"
    and r: "\<bar>of_int n * q\<bar> < 2 powi (emax + 1)"
  shows "round_to p emin emax x = Fin (of_int n * q)"
proof -
  have "ilog2 \<bar>x\<bar> = e0" using e0 by (rule ilog2_eqI)
  moreover have "rne (x / q) = n" using n by (rule rne_unique)
  ultimately show ?thesis
    using r by (simp add: round_to_def round_unbounded_def Let_def q [symmetric])
qed

lemma round_to_certificate_tie:
  assumes e0: "2 powi e0 \<le> \<bar>x\<bar>" "\<bar>x\<bar> < 2 powi (e0 + 1)"
    and q: "q = 2 powi (max e0 emin - int p + 1)"
    and f: "x / q = of_int f + 1 / 2"
    and n: "n = (if even f then f else f + 1)"
    and r: "\<bar>of_int n * q\<bar> < 2 powi (emax + 1)"
  shows "round_to p emin emax x = Fin (of_int n * q)"
proof -
  have "ilog2 \<bar>x\<bar> = e0" using e0 by (rule ilog2_eqI)
  moreover have "rne (x / q) = n" unfolding n using f by (rule rne_tie)
  ultimately show ?thesis
    using r by (simp add: round_to_def round_unbounded_def Let_def q [symmetric])
qed

lemma M_PI_value: "M_PI = Fin (884279719003555 / 281474976710656)"
  unfolding M_PI_def
 
    using round_to_certificate [of 1 "314159265358979323846 / 10 ^ 20" "2 powi (- 51)" "- 1022" 53 7074237752028440 1023]
  by (simp add: round64_def)

lemma round_unbounded_zero [simp]: "round_unbounded p emin 0 = 0"
  by (simp add: round_unbounded_def Let_def rne_def)

lemma round_unbounded_minus: "round_unbounded p emin (- x) = - round_unbounded p emin x"
  by (simp add: round_unbounded_def Let_def rne_minus)

lemma round_unbounded_nonneg:
  assumes "0 \<le> x"
  shows "0 \<le> round_unbounded p emin x"
proof -
  have "rne 0 \<le> rne (x / 2 powi (max (ilog2 \<bar>x\<bar>) emin - int p + 1))"
    using assms by (intro rne_mono) simp
  then show ?thesis by (simp add: round_unbounded_def Let_def rne_of_int [of 0, simplified])
qed

text \<open>Within the binade of the exponent \<open>e\<close>, rounding stays between the ends of the binade.\<close>

lemma round_unbounded_binade:
  assumes x: "0 < x" and e: "e = max (ilog2 x) emin" and p: "0 < p"
  shows "round_unbounded p emin x \<le> 2 powi (e + 1)"
    and "emin \<le> ilog2 x \<Longrightarrow> 2 powi e \<le> round_unbounded p emin x"
proof -
  define q :: real where "q = 2 powi (e - int p + 1)"
  have q: "0 < q" by (simp add: q_def)
  have r: "round_unbounded p emin x = of_int (rne (x / q)) * q"
    using x by (simp add: round_unbounded_def Let_def e q_def)
  have b: "2 powi ilog2 x \<le> x" "x < 2 powi (ilog2 x + 1)" using ilog2_bounds [OF x] by auto
  have hi: "2 powi (e + 1) = of_int (2 ^ p) * q"
  proof -
    have "(2::real) powi (e + 1) = 2 powi (int p + (e - int p + 1))" by simp
    also have "\<dots> = 2 powi int p * 2 powi (e - int p + 1)" by (rule power_int_add) simp
    finally show ?thesis by (simp add: q_def)
  qed
  have lo: "2 powi e = of_int (2 ^ (p - 1)) * q"
  proof -
    have "(2::real) powi e = 2 powi (int (p - 1) + (e - int p + 1))" using p by simp
    also have "\<dots> = 2 powi int (p - 1) * 2 powi (e - int p + 1)" by (rule power_int_add) simp
    finally show ?thesis by (simp add: q_def)
  qed
  have "x \<le> 2 powi (e + 1)"
  proof -
    have "(2::real) powi (ilog2 x + 1) \<le> 2 powi (e + 1)" by (simp add: two_powi_le_iff e)
    with b(2) show ?thesis by linarith
  qed
  then have "x / q \<le> of_int (2 ^ p)" using q by (simp add: hi pos_divide_le_eq)
  then have "rne (x / q) \<le> 2 ^ p" using rne_mono [of "x / q" "of_int (2 ^ p)"] by (simp only: rne_of_int)
  then have "(of_int (rne (x / q)) :: real) \<le> of_int (2 ^ p)" by (simp only: of_int_le_iff)
  then show "round_unbounded p emin x \<le> 2 powi (e + 1)"
    unfolding r hi using q by (intro mult_right_mono) auto
  assume "emin \<le> ilog2 x"
  then have "e = ilog2 x" by (simp add: e)
  with b(1) have "2 powi e \<le> x" by simp
  then have "of_int (2 ^ (p - 1)) \<le> x / q" using q by (simp add: lo pos_le_divide_eq)
  then have "2 ^ (p - 1) \<le> rne (x / q)"
    using rne_mono [of "of_int (2 ^ (p - 1))" "x / q"] by (simp only: rne_of_int)
  then have "(of_int (2 ^ (p - 1)) :: real) \<le> of_int (rne (x / q))" by (simp only: of_int_le_iff)
  then show "2 powi e \<le> round_unbounded p emin x"
    unfolding r lo using q by (intro mult_right_mono) auto
qed

lemma round_unbounded_mono_pos:
  assumes "0 < x" "x \<le> y" "0 < p"
  shows "round_unbounded p emin x \<le> round_unbounded p emin y"
proof -
  define ex where "ex = max (ilog2 x) emin"
  define ey where "ey = max (ilog2 y) emin"
  have y: "0 < y" using assms by simp
  have bx: "2 powi ilog2 x \<le> x" using ilog2_bounds [OF assms(1)] by simp
  have byu: "y < 2 powi (ilog2 y + 1)" using ilog2_bounds [OF y] by simp
  have "(2::real) powi ilog2 x < 2 powi (ilog2 y + 1)" using bx byu assms(2) by linarith
  then have "ilog2 x \<le> ilog2 y" by (simp add: two_powi_less_iff)
  then have le: "ex \<le> ey" by (auto simp: ex_def ey_def)
  show ?thesis
  proof (cases "ex = ey")
    case True
    define q :: real where "q = 2 powi (ex - int p + 1)"
    have q: "0 < q" by (simp add: q_def)
    have "x / q \<le> y / q" using assms(2) q by (simp add: divide_right_mono)
    then have "rne (x / q) \<le> rne (y / q)" by (rule rne_mono)
    then have "(of_int (rne (x / q)) :: real) \<le> of_int (rne (y / q))" by (simp only: of_int_le_iff)
    then have "of_int (rne (x / q)) * q \<le> of_int (rne (y / q)) * q"
      using q by (intro mult_right_mono) auto
    then show ?thesis
      using assms(1) y True
      by (simp add: round_unbounded_def Let_def ex_def [symmetric] ey_def [symmetric] q_def)
  next
    case False
    with le have lt: "ex + 1 \<le> ey" by simp
    then have "emin < ey" by (auto simp: ex_def)
    then have "emin \<le> ilog2 y" by (auto simp: ey_def max_def split: if_splits)
    then have "2 powi ey \<le> round_unbounded p emin y"
      using round_unbounded_binade(2) [OF y ey_def assms(3)] by simp
    moreover have "round_unbounded p emin x \<le> 2 powi (ex + 1)"
      using round_unbounded_binade(1) [OF assms(1) ex_def assms(3)] .
    moreover have "(2::real) powi (ex + 1) \<le> 2 powi ey" using lt by (simp add: two_powi_le_iff)
    ultimately show ?thesis by linarith
  qed
qed

lemma round_unbounded_mono:
  assumes "x \<le> y" "0 < p"
  shows "round_unbounded p emin x \<le> round_unbounded p emin y"
proof -
  consider "0 < x" | "x \<le> 0" "0 \<le> y" | "y < 0" by linarith
  then show ?thesis
  proof cases
    case 1
    then show ?thesis using assms by (intro round_unbounded_mono_pos) auto
  next
    case 2
    have "round_unbounded p emin x \<le> 0"
      using round_unbounded_nonneg [of "- x" p emin] 2(1) by (simp add: round_unbounded_minus)
    moreover have "0 \<le> round_unbounded p emin y" using 2(2) by (rule round_unbounded_nonneg)
    ultimately show ?thesis by linarith
  next
    case 3
    have "round_unbounded p emin (- y) \<le> round_unbounded p emin (- x)"
      using 3 assms by (intro round_unbounded_mono_pos) auto
    then show ?thesis by (simp add: round_unbounded_minus)
  qed
qed

lemma round_unbounded_error:
  assumes "2 powi emin \<le> \<bar>x\<bar>"
  shows "\<bar>round_unbounded p emin x - x\<bar> \<le> 2 powi (- int p) * \<bar>x\<bar>"
proof -
  have pos: "0 < \<bar>x\<bar>" using assms by (rule less_le_trans [rotated]) simp
  define e where "e = ilog2 \<bar>x\<bar>"
  have b: "2 powi e \<le> \<bar>x\<bar>" "\<bar>x\<bar> < 2 powi (e + 1)" using ilog2_bounds [OF pos] by (auto simp: e_def)
  have "(2::real) powi emin < 2 powi (e + 1)" using assms b(2) by linarith
  then have "emin \<le> e" by (simp add: two_powi_less_iff)
  define q :: real where "q = 2 powi (e - int p + 1)"
  have q: "0 < q" by (simp add: q_def)
  have r: "round_unbounded p emin x = of_int (rne (x / q)) * q"
    using \<open>emin \<le> e\<close> by (simp add: round_unbounded_def Let_def e_def [symmetric] q_def max_def)
  have "\<bar>of_int (rne (x / q)) * q - x\<bar> = \<bar>of_int (rne (x / q)) - x / q\<bar> * q"
  proof -
    have "of_int (rne (x / q)) * q - x = (of_int (rne (x / q)) - x / q) * q"
      using q by (simp add: field_simps)
    then show ?thesis using q by (simp add: abs_mult)
  qed
  also have "\<dots> \<le> 1 / 2 * q" using rne_error [of "x / q"] q by (intro mult_right_mono) auto
  also have "1 / 2 * q = 2 powi (- int p) * 2 powi e"
  proof -
    have "(2::real) powi (e - int p + 1) = 2 powi (1 + (- int p + e))" by (simp add: algebra_simps)
    also have "\<dots> = 2 powi 1 * 2 powi (- int p + e)" by (rule power_int_add) simp
    also have "2 powi (- int p + e) = (2::real) powi (- int p) * 2 powi e" by (rule power_int_add) simp
    finally show ?thesis by (simp add: q_def)
  qed
  also have "\<dots> \<le> 2 powi (- int p) * \<bar>x\<bar>" using b(1) by (intro mult_left_mono) auto
  finally show ?thesis by (simp add: r)
qed

lemma round_to_zero [simp]: "round_to p emin emax 0 = Fin 0"
  by (simp add: round_to_def not_le)

lemma round32_zero [simp]: "round32 0 = Fin 0" by (simp add: round32_def)
lemma round64_zero [simp]: "round64 0 = Fin 0" by (simp add: round64_def)

lemma round_to_finite:
  "round_to p emin emax x = Fin y \<longleftrightarrow>
     round_unbounded p emin x = y \<and> \<bar>y\<bar> < 2 powi (emax + 1)"
  by (auto simp: round_to_def Let_def)

text \<open>Converting a positive integer gives a number that is at least one, or infinity.\<close>

lemma round_to_ge_one:
  assumes "1 \<le> x" "0 < p" "emin \<le> 0" "0 \<le> emax"
  shows "round_to p emin emax x = PInf \<or> (\<exists>y. round_to p emin emax x = Fin y \<and> 1 \<le> y)"
proof -
  have "round_unbounded p emin (of_int 1 * 2 powi 0) \<le> round_unbounded p emin x"
    using assms by (intro round_unbounded_mono) auto
  moreover have "round_to p emin emax (of_int 1 * 2 powi 0) = Fin (of_int 1 * 2 powi 0)"
  proof (rule round_to_exact)
    show "\<bar>1::int\<bar> < 2 ^ p" using assms(2) by simp
    show "emin - int p + 1 \<le> 0" using assms by simp
    have "(2::real) powi 0 < 2 powi (emax + 1)" using assms(4) by (simp only: two_powi_less_iff)
    then show "\<bar>of_int 1 * 2 powi 0\<bar> < (2::real) powi (emax + 1)" by simp
  qed
  then have "round_unbounded p emin (of_int 1 * 2 powi 0) = 1"
    by (simp add: round_to_finite)
  ultimately have "1 \<le> round_unbounded p emin x" by simp
  then show ?thesis using assms(1) by (auto simp: round_to_def Let_def)
qed

text \<open>Between two representable numbers, rounding is finite and stays between them.\<close>

lemma round_to_between:
  assumes "lo \<le> x" "x \<le> hi" "0 < p"
    and "round_to p emin emax lo = Fin lo" "round_to p emin emax hi = Fin hi"
  shows "\<exists>y. round_to p emin emax x = Fin y \<and> lo \<le> y \<and> y \<le> hi \<and>
              y = round_unbounded p emin x"
proof -
  have lo: "round_unbounded p emin lo = lo" "\<bar>lo\<bar> < 2 powi (emax + 1)"
    using assms(4) by (simp_all add: round_to_finite)
  have hi: "round_unbounded p emin hi = hi" "\<bar>hi\<bar> < 2 powi (emax + 1)"
    using assms(5) by (simp_all add: round_to_finite)
  have "lo \<le> round_unbounded p emin x"
    using round_unbounded_mono [OF assms(1,3), of emin] lo(1) by simp
  moreover have "round_unbounded p emin x \<le> hi"
    using round_unbounded_mono [OF assms(2,3), of emin] hi(1) by simp
  ultimately show ?thesis using lo(2) hi(2) by (auto simp: round_to_finite)
qed

lemma round_to_error:
  assumes "round_to p emin emax x = Fin y" "2 powi emin \<le> \<bar>x\<bar>"
  shows "\<bar>y - x\<bar> \<le> 2 powi (- int p) * \<bar>x\<bar>"
  using assms round_unbounded_error [of emin x p] by (simp add: round_to_finite)

lemma round64_power2:
  assumes "- 1022 \<le> k" "k \<le> 1023"
  shows "round64 (2 powi k) = Fin (2 powi k)"
proof -
  have "(2::real) powi k < 2 powi (1023 + 1)" using assms by (simp only: two_powi_less_iff)
  then show ?thesis
    using round_to_exact [of 1 53 "- 1022" k 1023] assms by (simp add: round64_def)
qed

lemma round32_power2:
  assumes "- 126 \<le> k" "k \<le> 127"
  shows "round32 (2 powi k) = Fin (2 powi k)"
proof -
  have "(2::real) powi k < 2 powi (127 + 1)" using assms by (simp only: two_powi_less_iff)
  then show ?thesis
    using round_to_exact [of 1 24 "- 126" k 127] assms by (simp add: round32_def)
qed

lemma round_unbounded_abs: "\<bar>round_unbounded p emin x\<bar> = round_unbounded p emin \<bar>x\<bar>"
proof (cases "0 \<le> x")
  case True
  then show ?thesis using round_unbounded_nonneg [of x p emin] by simp
next
  case False
  then have "0 \<le> round_unbounded p emin (- x)" by (intro round_unbounded_nonneg) simp
  then show ?thesis using False by (simp add: round_unbounded_minus)
qed

lemma round_to_overflow:
  assumes "2 powi (emax + 1) \<le> x" "0 < p" "emin \<le> emax + 1"
  shows "round_to p emin emax x = PInf"
proof -
  have "round_to p emin (emax + 1) (of_int 1 * 2 powi (emax + 1)) =
          Fin (of_int 1 * 2 powi (emax + 1))"
  proof (rule round_to_exact)
    show "\<bar>1::int\<bar> < 2 ^ p" using assms(2) by simp
    show "emin - int p + 1 \<le> emax + 1" using assms(2,3) by simp
    have "(2::real) powi (emax + 1) < 2 powi (emax + 1 + 1)" by (simp only: two_powi_less_iff)
    then show "\<bar>of_int 1 * 2 powi (emax + 1)\<bar> < (2::real) powi (emax + 1 + 1)" by simp
  qed
  then have "round_unbounded p emin (2 powi (emax + 1)) = 2 powi (emax + 1)"
    by (simp add: round_to_finite)
  moreover have "round_unbounded p emin (2 powi (emax + 1)) \<le> round_unbounded p emin x"
    using assms(1,2) by (rule round_unbounded_mono)
  moreover have "0 < x" using assms(1) by (rule less_le_trans [rotated]) simp
  ultimately show ?thesis by (simp add: round_to_def Let_def)
qed

lemma int_to_double_exact: "\<bar>n\<bar> < 2 ^ 31 \<Longrightarrow> int_to_double n = Fin (of_int n)"
  using round64_int [of n] by (simp add: int_to_double_def)

text \<open>
  The error of a rounding in general: relative in the range of the normal numbers, at most
  half the spacing of the subnormal numbers below it.
\<close>

lemma round_unbounded_error_abs:
  "\<bar>round_unbounded p emin x - x\<bar> \<le> 2 powi (- int p) * \<bar>x\<bar> + 2 powi (emin - int p)"
proof (cases "2 powi emin \<le> \<bar>x\<bar>")
  case True
  have "0 \<le> (2::real) powi (emin - int p)" by simp
  with round_unbounded_error [OF True, of p] show ?thesis by linarith
next
  case small: False
  show ?thesis
  proof (cases "x = 0")
    case True
    then show ?thesis by simp
  next
    case False
    then have pos: "0 < \<bar>x\<bar>" by simp
    have "2 powi ilog2 \<bar>x\<bar> \<le> \<bar>x\<bar>" using ilog2_bounds [OF pos] by simp
    with small have "(2::real) powi ilog2 \<bar>x\<bar> < 2 powi emin" by linarith
    then have "ilog2 \<bar>x\<bar> < emin" by (simp only: two_powi_less_iff)
    then have e: "max (ilog2 \<bar>x\<bar>) emin = emin" by simp
    define q :: real where "q = 2 powi (emin - int p + 1)"
    have q: "0 < q" by (simp add: q_def)
    have r: "round_unbounded p emin x = of_int (rne (x / q)) * q"
      by (simp add: round_unbounded_def Let_def e q_def)
    have "\<bar>of_int (rne (x / q)) * q - x\<bar> = \<bar>of_int (rne (x / q)) - x / q\<bar> * q"
    proof -
      have "of_int (rne (x / q)) * q - x = (of_int (rne (x / q)) - x / q) * q"
        using q by (simp add: field_simps)
      then show ?thesis using q by (simp add: abs_mult)
    qed
    also have "\<dots> \<le> 1 / 2 * q" using rne_error [of "x / q"] q by (intro mult_right_mono) auto
    also have "1 / 2 * q = 2 powi (emin - int p)"
    proof -
      have "(2::real) powi (emin - int p + 1) = 2 powi (1 + (emin - int p))"
        by (simp add: algebra_simps)
      also have "\<dots> = 2 powi 1 * 2 powi (emin - int p)" by (rule power_int_add) simp
      finally show ?thesis by (simp add: q_def)
    qed
    finally have "\<bar>round_unbounded p emin x - x\<bar> \<le> 2 powi (emin - int p)" by (simp add: r)
    moreover have "0 \<le> 2 powi (- int p) * \<bar>x\<bar>" by simp
    ultimately show ?thesis by linarith
  qed
qed

lemma round32_error:
  assumes "round32 x = Fin y"
  shows "\<bar>y - x\<bar> \<le> 2 powi (- 24) * \<bar>x\<bar> + 2 powi (- 150)"
  using assms round_unbounded_error_abs [of 24 "- 126" x]
  by (simp add: round32_def round_to_finite)

text \<open>The largest \<^verbatim>\<open>float\<close>, \<open>(2\<^sup>2\<^sup>4 - 1) * 2\<^sup>1\<^sup>0\<^sup>4\<close>, and the rounding of a number within its range.\<close>

lemma round32_largest:
  "round32 (of_int (2 ^ 24 - 1) * 2 powi 104) = Fin (of_int (2 ^ 24 - 1) * 2 powi 104)"
  "round32 (of_int (- (2 ^ 24 - 1)) * 2 powi 104) = Fin (of_int (- (2 ^ 24 - 1)) * 2 powi 104)"
  unfolding round32_def by (rule round_to_exact; simp)+

lemma round32_in_range:
  assumes "\<bar>x\<bar> \<le> of_int (2 ^ 24 - 1) * 2 powi 104"
  shows "\<exists>y. round32 x = Fin y \<and> y = round_unbounded 24 (- 126) x \<and>
             \<bar>y\<bar> \<le> of_int (2 ^ 24 - 1) * 2 powi 104"
proof -
  have "of_int (- (2 ^ 24 - 1)) * 2 powi 104 \<le> x" "x \<le> of_int (2 ^ 24 - 1) * 2 powi 104"
    using assms by (simp_all add: abs_le_iff)
  from round_to_between [OF this, of 24 "- 126" 127] round32_largest
  show ?thesis by (auto simp: round32_def abs_le_iff)
qed

text \<open>
  The representable numbers are those of the form \<open>m * 2\<^sup>j\<close> with a significand \<open>m\<close> of at most
  \<open>p\<close> bits and \<open>j\<close> not below the exponent of the subnormal numbers. Every rounded value
  has this form, so that rounding is idempotent, and the double of a representable number is
  representable.
\<close>

lemma round_unbounded_exact:
  assumes "\<bar>m\<bar> < 2 ^ p" "emin - int p + 1 \<le> j"
  shows "round_unbounded p emin (of_int m * 2 powi j) = of_int m * 2 powi j"
proof -
  have "\<bar>of_int m * 2 powi j\<bar> = of_int \<bar>m\<bar> * (2::real) powi j" by (simp add: abs_mult)
  also have "\<dots> \<le> of_int (2 ^ p) * 2 powi j"
    using assms(1) by (intro mult_right_mono) (simp_all only: of_int_le_iff, simp_all)
  also have "\<dots> = 2 powi (int p + j)" by (simp add: power_int_add)
  also have "\<dots> < 2 powi (int p + j + 1)" by (simp only: two_powi_less_iff)
  finally have "\<bar>of_int m * 2 powi j\<bar> < (2::real) powi (int p + j + 1)" .
  from round_to_exact [OF assms this] show ?thesis by (simp add: round_to_finite)
qed

lemma round_unbounded_form:
  assumes p: "0 < p"
  shows "\<exists>m j. \<bar>m\<bar> < 2 ^ p \<and> emin - int p + 1 \<le> j \<and>
                round_unbounded p emin x = of_int m * 2 powi j"
proof (cases "x = 0")
  case True
  have "\<bar>0::int\<bar> < 2 ^ p \<and> emin - int p + 1 \<le> emin - int p + 1 \<and>
        round_unbounded p emin x = of_int 0 * 2 powi (emin - int p + 1)"
    using True by simp
  then show ?thesis by blast
next
  case False
  then have pos: "0 < \<bar>x\<bar>" by simp
  define e where "e = max (ilog2 \<bar>x\<bar>) emin"
  define q :: real where "q = 2 powi (e - int p + 1)"
  define n where "n = rne (x / q)"
  have q: "0 < q" by (simp add: q_def)
  have r: "round_unbounded p emin x = of_int n * q"
    by (simp add: round_unbounded_def Let_def e_def q_def n_def)
  have hi: "2 powi (e + 1) = of_int (2 ^ p) * q"
  proof -
    have "(2::real) powi (e + 1) = 2 powi (int p + (e - int p + 1))" by simp
    also have "\<dots> = 2 powi int p * 2 powi (e - int p + 1)" by (rule power_int_add) simp
    finally show ?thesis by (simp add: q_def)
  qed
  have "\<bar>x\<bar> < 2 powi (ilog2 \<bar>x\<bar> + 1)" using ilog2_bounds [OF pos] by simp
  also have "\<dots> \<le> 2 powi (e + 1)" by (simp add: two_powi_le_iff e_def)
  finally have "\<bar>x\<bar> < of_int (2 ^ p) * q" by (simp only: hi)
  then have "\<bar>x\<bar> / q < of_int (2 ^ p)" using q by (simp add: pos_divide_less_eq)
  then have "of_int (- (2 ^ p)) \<le> x / q" "x / q \<le> of_int (2 ^ p)"
    using q by (simp_all add: abs_less_iff divide_less_eq field_simps)
  then have "- (2 ^ p) \<le> n" "n \<le> 2 ^ p"
    using rne_mono [of "of_int (- (2 ^ p))" "x / q"] rne_mono [of "x / q" "of_int (2 ^ p)"]
    by (simp_all only: rne_of_int n_def)
  then consider "\<bar>n\<bar> < 2 ^ p" | "n = 2 ^ p" | "n = - (2 ^ p)" by linarith
  then show ?thesis
  proof cases
    case 1
    have "emin - int p + 1 \<le> e - int p + 1" by (simp add: e_def)
    with 1 r show ?thesis unfolding q_def by blast
  next
    case 2
    have "round_unbounded p emin x = of_int 1 * 2 powi (e + 1)" by (simp add: r 2 hi)
    moreover have "\<bar>1::int\<bar> < 2 ^ p" using p by simp
    moreover have "emin - int p + 1 \<le> e + 1" by (simp add: e_def)
    ultimately show ?thesis by blast
  next
    case 3
    have "round_unbounded p emin x = of_int (- 1) * 2 powi (e + 1)" by (simp add: r 3 hi)
    moreover have "\<bar>- 1::int\<bar> < 2 ^ p" using p by simp
    moreover have "emin - int p + 1 \<le> e + 1" by (simp add: e_def)
    ultimately show ?thesis by blast
  qed
qed

lemma round_unbounded_idem:
  assumes "0 < p"
  shows "round_unbounded p emin (round_unbounded p emin x) = round_unbounded p emin x"
proof -
  obtain m j where "\<bar>m\<bar> < 2 ^ p" "emin - int p + 1 \<le> j"
    "round_unbounded p emin x = of_int m * 2 powi j"
    using round_unbounded_form [OF assms, of emin x] by blast
  then show ?thesis using round_unbounded_exact [of m p emin j] by simp
qed

lemma round_unbounded_double:
  assumes "0 < p" "round_unbounded p emin x = x"
  shows "round_unbounded p emin (2 * x) = 2 * x"
proof -
  obtain m j where m: "\<bar>m\<bar> < 2 ^ p" "emin - int p + 1 \<le> j"
    "round_unbounded p emin x = of_int m * 2 powi j"
    using round_unbounded_form [OF assms(1), of emin x] by blast
  have "2 * x = of_int m * 2 powi (j + 1)"
  proof -
    have "(2::real) powi (j + 1) = 2 powi j * 2 powi 1" by (rule power_int_add) simp
    then show ?thesis using m(3) assms(2) by simp
  qed
  moreover have "emin - int p + 1 \<le> j + 1" using m(2) by simp
  ultimately show ?thesis using round_unbounded_exact [of m p emin "j + 1"] m(1) by simp
qed

text \<open>The rounding of a number that is not negative is not negative, or it is infinite.\<close>

lemma round_to_nonneg:
  assumes "0 \<le> x"
  shows "round_to p emin emax x = PInf \<or>
         (\<exists>y. round_to p emin emax x = Fin y \<and> 0 \<le> y \<and> y = round_unbounded p emin x)"
proof (cases "x = 0")
  case True
  then show ?thesis by simp
next
  case False
  with assms have "0 < x" by simp
  then show ?thesis
    using round_unbounded_nonneg [OF assms, of p emin] by (simp add: round_to_def Let_def)
qed

section \<open>Runs in which no JNI call fails\<close>

lemma not_in_tl: "x \<notin> set xs \<Longrightarrow> x \<notin> set (tl xs)"
  by (cases xs) auto

lemma next_call_succeeds:
  "True \<notin> set (failing env) \<Longrightarrow> next_call_fails env = (False, env\<lparr>failing := tl (failing env)\<rparr>)"
  by (cases "failing env") (auto simp: next_call_fails_def)

subsection \<open>pcm16ToFloat\<close>

declare pcm16_loop.simps [simp del]

lemma pcm16_loop_length [simp]: "length (pcm16_loop pcm scale len i fd) = length fd"
proof (induction pcm scale len i fd rule: pcm16_loop.induct)
  case (1 pcm scale len i fd)
  then show ?case by (subst pcm16_loop.simps) simp
qed

lemma pcm16_loop_nth:
  "k < length fd \<Longrightarrow>
   pcm16_loop pcm scale len i fd ! k =
     (if i \<le> k \<and> k < len then fp_mul round32 (int_to_float (sint (pcm ! k))) scale else fd ! k)"
proof (induction pcm scale len i fd rule: pcm16_loop.induct)
  case (1 pcm scale len i fd)
  show ?case
  proof (cases "i < len")
    case True
    with 1 show ?thesis
      by (subst pcm16_loop.simps) (auto simp: nth_list_update not_less_eq_eq le_antisym)
  next
    case False
    then show ?thesis by (subst pcm16_loop.simps) auto
  qed
qed

lemma pcm16_loop_map:
  assumes "length fd = length pcm"
  shows "pcm16_loop pcm scale (length pcm) 0 fd =
           map (\<lambda>x. fp_mul round32 (int_to_float (sint x)) scale) pcm"
  using assms by (intro nth_equalityI) (simp_all add: pcm16_loop_nth)

lemmas jni_defs = GetShortArrayLength_def GetFloatArrayLength_def GetShortArrayElements_def
      NewFloatArray_def GetFloatArrayElements_def
      ReleaseFloatArrayElements_def ReleaseShortArrayElements_def LOGD_def LOGE_def LOGI_def

lemma pcm16ToFloat_result:
  assumes "pcm_data < length (short_arrays env)" "no_failure env"
  shows "returned_floats (pcm16ToFloat env pcm_data) =
           Some (map (\<lambda>x. fp_mul round32 (int_to_float (sint x)) pcm16_scale)
                   (short_arrays env ! pcm_data))"
  using assms
  by (simp add: pcm16ToFloat_def jni_defs next_call_succeeds not_in_tl no_failure_def
       returned_floats_def Let_def pcm16_loop_map nth_append)

lemma sint16_bound: "\<bar>sint (x :: 16 word)\<bar> \<le> 2 ^ 15"
  using sint_ge [of x] sint_lt [of x] by simp

lemma pcm16_scaled_exact:
  assumes "\<bar>n\<bar> \<le> 2 ^ 15"
  shows "fp_mul round32 (int_to_float n) pcm16_scale = Fin (of_int n / 32768)"
proof -
  have b: "\<bar>n\<bar> < 2 ^ 24" using assms by simp
  then have br: "\<bar>real_of_int n\<bar> < 2 ^ 24"
    by (metis of_int_abs of_int_less_numeral_power_cancel_iff)
  have 1: "int_to_float n = Fin (of_int n)"
    using b round32_int [of n] by (simp add: int_to_float_def)
  have 2: "round32 (1 / 32768) = Fin (1 / 32768)"
    using round_to_exact [of 1 24 "- 126" "- 15" 127] by (simp add: round32_def)
  have eq: "real_of_int n * 2 powi (- 15) = real_of_int n / 32768"
    by (simp add: power_int_minus_divide)
  have "\<bar>real_of_int n * 2 powi (- 15)\<bar> < 2 powi (127 + 1)"
    using br by (simp add: abs_mult)
  with b have 3: "round32 (real_of_int n / 32768) = Fin (real_of_int n / 32768)"
    unfolding round32_def eq [symmetric] by (intro round_to_exact) simp_all
  show ?thesis by (simp add: pcm16_scale_def 1 2 3)
qed

lemma pcm16_sample_exact:
  "fp_mul round32 (int_to_float (sint (x :: 16 word))) pcm16_scale =
     Fin (real_of_int (sint x) / 32768)"
  by (rule pcm16_scaled_exact) (rule sint16_bound)

text \<open>
  C4. \<^verbatim>\<open>pcm16ToFloat\<close> returns an array of the length of its input whose element \<open>i\<close> is the
  \<^verbatim>\<open>float\<close> product of input sample \<open>i\<close> and \<^verbatim>\<open>1.0f / 32768.0f\<close>; the product is exact, so the
  element is the sample divided by 32768. This holds for every input length, the empty
  input included.
\<close>

theorem pcm16ToFloat_scales_every_sample:
  assumes "pcm_data < length (short_arrays env)" and "no_failure env"
  shows "returned_floats (pcm16ToFloat env pcm_data) =
           Some (map (\<lambda>x. fp_mul round32 (int_to_float (sint x)) pcm16_scale)
                   (short_arrays env ! pcm_data)) \<and>
         returned_floats (pcm16ToFloat env pcm_data) =
           Some (map (\<lambda>x. Fin (real_of_int (sint x) / 32768)) (short_arrays env ! pcm_data)) \<and>
         map_option length (returned_floats (pcm16ToFloat env pcm_data)) =
           Some (length (short_arrays env ! pcm_data))"
  using pcm16ToFloat_result [OF assms] by (simp add: pcm16_sample_exact)

text \<open>The samples 16384, -16384, 0 decode to 0.5, -0.5, 0.0.\<close>

theorem pcm16ToFloat_scales_every_sample_witness:
  "0 < length (short_arrays (env_of [16384, - 16384, 0] [] [])) \<and>
   no_failure (env_of [16384, - 16384, 0] [] []) \<and>
   returned_floats (pcm16ToFloat (env_of [16384, - 16384, 0] [] []) 0) =
     Some [Fin (1 / 2), Fin (- 1 / 2), Fin 0]"
  using pcm16ToFloat_scales_every_sample [of 0 "env_of [16384, - 16384, 0] [] []", THEN conjunct2]
  by (simp add: no_failure_def env_of_def)

subsection \<open>highPassFilter\<close>

declare highpass_loop.simps [simp del]

lemma highpass_loop_step:
  assumes "i < len" "1 \<le> i" "i < length audio" "i < length filtered"
  shows "highpass_loop alpha audio len i filtered =
           highpass_loop alpha audio len (Suc i)
             (filtered[i := fp_mul round32 alpha
                (fp_sub round32 (fp_add round32 (filtered ! (i - 1)) (audio ! i))
                   (audio ! (i - 1)))])"
proof -
  have n: "nat (int i - 1) = i - 1" by simp
  show ?thesis using assms by (subst highpass_loop.simps) (simp add: rd_def wr_def n)
qed

text \<open>
  The loop invariant: started at an index \<open>i \<ge> 1\<close> on buffers of at least \<open>len\<close> elements,
  the loop ends without a fault, and if the elements below \<open>i\<close> satisfy the recurrence, so do
  all elements of the result.
\<close>

lemma highpass_loop_recurrence:
  assumes "1 \<le> i" and "i \<le> len" and "len = length filtered" and "len \<le> length audio"
    and "\<forall>k<i. filtered ! k = highpass_recurrence alpha audio k"
  shows "\<exists>out. highpass_loop alpha audio len i filtered = Inr out \<and> length out = len \<and>
               (\<forall>k<len. out ! k = highpass_recurrence alpha audio k)"
  using assms
proof (induction "len - i" arbitrary: i filtered)
  case 0
  then have "\<not> i < len" by simp
  with 0 show ?case by (subst highpass_loop.simps) simp
next
  case (Suc n)
  then have lt: "i < len" by linarith
  obtain j where j: "i = Suc j" using Suc.prems(1) by (cases i) auto
  define v where "v = fp_mul round32 alpha
              (fp_sub round32 (fp_add round32 (filtered ! (i - 1)) (audio ! i))
                 (audio ! (i - 1)))"
  have v: "v = highpass_recurrence alpha audio i"
    using Suc.prems(5) by (simp add: v_def j)
  have inv: "\<forall>k<Suc i. filtered[i := v] ! k = highpass_recurrence alpha audio k"
    using Suc.prems lt v by (auto simp: nth_list_update less_Suc_eq)
  have n: "n = len - Suc i" using Suc.hyps(2) by simp
  have "\<exists>out. highpass_loop alpha audio len (Suc i) (filtered[i := v]) = Inr out \<and>
               length out = len \<and> (\<forall>k<len. out ! k = highpass_recurrence alpha audio k)"
    using lt Suc.prems inv by (intro Suc.hyps(1) [OF n]) auto
  moreover have "highpass_loop alpha audio len i filtered =
                   highpass_loop alpha audio len (Suc i) (filtered[i := v])"
    unfolding v_def using lt Suc.prems by (intro highpass_loop_step) auto
  ultimately show ?case by simp
qed

lemma highpass_loop_map:
  assumes "audio \<noteq> []" "length filtered = length audio"
  shows "highpass_loop alpha audio (length audio) (Suc 0) (filtered[0 := audio ! 0]) =
           Inr (map (highpass_recurrence alpha audio) [0..<length audio])"
proof -
  have "\<forall>k<Suc 0. filtered[0 := audio ! 0] ! k = highpass_recurrence alpha audio k"
    using assms by simp
  moreover have "1 \<le> Suc 0" "Suc 0 \<le> length audio"
    "length audio = length (filtered[0 := audio ! 0])" "length audio \<le> length audio"
    using assms by (simp_all add: Suc_le_eq)
  ultimately obtain out where out:
    "highpass_loop alpha audio (length audio) (Suc 0) (filtered[0 := audio ! 0]) = Inr out"
    "length out = length audio" "\<forall>k<length audio. out ! k = highpass_recurrence alpha audio k"
    using highpass_loop_recurrence
      [of "Suc 0" "length audio" "filtered[0 := audio ! 0]" audio alpha]
    by blast
  have "out = map (highpass_recurrence alpha audio) [0..<length audio]"
    using out(2,3) by (intro nth_equalityI) simp_all
  with out(1) show ?thesis by simp
qed

lemma highPassFilter_result:
  assumes "audio_data < length (float_arrays env)" and "no_failure env"
    and "float_arrays env ! audio_data \<noteq> []"
  shows "returned_floats (highPassFilter env audio_data cutoff_freq sample_rate) =
           Some (map (highpass_recurrence (highpass_alpha cutoff_freq sample_rate)
                        (float_arrays env ! audio_data))
                   [0..<length (float_arrays env ! audio_data)])"
  using assms
  by (simp add: highPassFilter_def jni_defs next_call_succeeds not_in_tl no_failure_def
       returned_floats_def Let_def rd_def wr_def highpass_loop_map nth_append)

text \<open>Whether a run with successful JNI calls ends with a fault is decided at index 0.\<close>

lemma highPassFilter_outcome:
  assumes "audio_data < length (float_arrays env)" and "no_failure env"
  shows "fst (highPassFilter env audio_data cutoff_freq sample_rate) =
           (if float_arrays env ! audio_data = [] then Inl OutOfBounds
            else Inr (Some (length (float_arrays env))))"
  using assms
  by (simp add: highPassFilter_def jni_defs next_call_succeeds not_in_tl no_failure_def
       Let_def rd_def wr_def highpass_loop_map nth_append)

lemma highpass_dt_16000: "highpass_dt 16000 = Fin (8589935 / 137438953472)"
proof -
  have "round32 16000 = Fin 16000" using round32_int [of 16000] by simp
  moreover have "round32 (1 / 16000) = Fin (8589935 / 137438953472)"
    using round_to_certificate [of "- 14" "1 / 16000" "2 powi (- 37)" "- 126" 24 8589935 127]
    by (simp add: round32_def)
  ultimately show ?thesis by (simp add: highpass_dt_def int_to_float_def)
qed

lemma highpass_rc_100: "highpass_rc (Fin 100) = Fin (6835653 / 4294967296)"
proof -
  have 1: "round64 (884279719003555 / 140737488355328) = Fin (884279719003555 / 140737488355328)"
    using round_to_exact [of 884279719003555 53 "- 1022" "- 47" 1023] by (simp add: round64_def)
  have 2: "round64 (22106992975088875 / 35184372088832) = Fin (5526748243772219 / 8796093022208)"
    using round_to_certificate [of 9 "22106992975088875 / 35184372088832" "2 powi (- 43)" "- 1022" 53 5526748243772219 1023]
    by (simp add: round64_def)
  have 3: "round64 (8796093022208 / 5526748243772219) = Fin (7339726258205003 / 4611686018427387904)"
    using round_to_certificate [of "- 10" "8796093022208 / 5526748243772219" "2 powi (- 62)" "- 1022" 53 7339726258205003 1023]
    by (simp add: round64_def)
  have 4: "round32 (7339726258205003 / 4611686018427387904) = Fin (6835653 / 4294967296)"
    using round_to_certificate [of "- 10" "7339726258205003 / 4611686018427387904" "2 powi (- 33)" "- 126" 24 13671306 127]
    by (simp add: round32_def)
  show ?thesis by (simp add: highpass_rc_def M_PI_value 1 2 3 4)
qed

lemma highpass_alpha_100_16000: "highpass_alpha (Fin 100) 16000 = Fin (16143271 / 16777216)"
proof -
  have 1: "round32 (227330831 / 137438953472) = Fin (14208177 / 8589934592)"
    using round_to_certificate [of "- 10" "227330831 / 137438953472" "2 powi (- 33)" "- 126" 24 14208177 127]
    by (simp add: round32_def)
  have 2: "round32 (4557102 / 4736059) = Fin (16143271 / 16777216)"
    using round_to_certificate [of "- 1" "4557102 / 4736059" "2 powi (- 24)" "- 126" 24 16143271 127]
    by (simp add: round32_def)
  show ?thesis by (simp add: highpass_alpha_def highpass_dt_16000 highpass_rc_100 1 2)
qed

lemma highPassFilter_indexed:
  assumes "audio_data < length (float_arrays env)" and "no_failure env"
    and "float_arrays env ! audio_data = audio" and "audio \<noteq> []"
  shows "\<exists>filtered.
           returned_floats (highPassFilter env audio_data cutoff_freq sample_rate) = Some filtered \<and>
           length filtered = length audio \<and>
           filtered ! 0 = audio ! 0 \<and>
           (\<forall>i. 1 \<le> i \<and> i < length audio \<longrightarrow>
              filtered ! i =
                fp_mul round32 (highpass_alpha cutoff_freq sample_rate)
                  (fp_sub round32 (fp_add round32 (filtered ! (i - 1)) (audio ! i))
                     (audio ! (i - 1))))"
proof -
  let ?alpha = "highpass_alpha cutoff_freq sample_rate"
  let ?f = "map (highpass_recurrence ?alpha audio) [0..<length audio]"
  have "returned_floats (highPassFilter env audio_data cutoff_freq sample_rate) = Some ?f"
    using highPassFilter_result [of audio_data env cutoff_freq sample_rate] assms by simp
  moreover have "length ?f = length audio" by simp
  moreover have "?f ! 0 = audio ! 0" using assms(4) by simp
  moreover have "?f ! i =
                fp_mul round32 ?alpha
                  (fp_sub round32 (fp_add round32 (?f ! (i - 1)) (audio ! i))
                     (audio ! (i - 1)))" if "1 \<le> i" "i < length audio" for i
  proof -
    from that(1) obtain j where j: "i = Suc j" by (auto simp: Suc_le_eq gr0_conv_Suc)
    show ?thesis using that by (simp add: j)
  qed
  ultimately show ?thesis by blast
qed

text \<open>
  C2. For an input of length \<open>N \<ge> 1\<close>, \<^verbatim>\<open>highPassFilter\<close> returns an array of length \<open>N\<close>
  with \<open>filtered[0] = input[0]\<close> and, for every \<open>i \<ge> 1\<close>,
  \<open>filtered[i] = alpha * (filtered[i-1] + input[i] - input[i-1])\<close>, where
  \<open>dt = 1 / fs\<close>, \<open>rc = 1 / (2 * pi * fc)\<close> and \<open>alpha = rc / (rc + dt)\<close>; the operations
  are those of the source, in \<^verbatim>\<open>float\<close> except for the \<^verbatim>\<open>double\<close> product \<open>2 * pi * fc\<close>
  and its reciprocal.
\<close>

theorem highPassFilter_first_order_recurrence:
  assumes "audio_data < length (float_arrays env)" and "no_failure env"
    and "float_arrays env ! audio_data = audio" and "audio \<noteq> []"
  shows "\<exists>filtered.
           returned_floats (highPassFilter env audio_data cutoff_freq sample_rate) = Some filtered \<and>
           length filtered = length audio \<and>
           filtered ! 0 = audio ! 0 \<and>
           (\<forall>i. 1 \<le> i \<and> i < length audio \<longrightarrow>
              filtered ! i =
                fp_mul round32 (highpass_alpha cutoff_freq sample_rate)
                  (fp_sub round32 (fp_add round32 (filtered ! (i - 1)) (audio ! i))
                     (audio ! (i - 1)))) \<and>
           highpass_alpha cutoff_freq sample_rate =
             (let dt = fp_div round32 (Fin 1) (int_to_float (sint sample_rate));
                  rc = double_to_float
                         (fp_div round64 (Fin 1)
                            (fp_mul round64 (fp_mul round64 (Fin 2) M_PI) cutoff_freq))
              in fp_div round32 rc (fp_add round32 rc dt))"
  using highPassFilter_indexed [OF assms, of cutoff_freq sample_rate]
  by (simp add: highpass_alpha_def highpass_dt_def highpass_rc_def Let_def)

theorem highPassFilter_first_order_recurrence_witness:
  "0 < length (float_arrays (env_of [] [Fin 1, Fin 0] [])) \<and>
   no_failure (env_of [] [Fin 1, Fin 0] []) \<and>
   float_arrays (env_of [] [Fin 1, Fin 0] []) ! 0 = [Fin 1, Fin 0] \<and>
   [Fin 1, Fin 0] \<noteq> [] \<and>
   (\<exists>filtered.
      returned_floats (highPassFilter (env_of [] [Fin 1, Fin 0] []) 0 (Fin 100) 16000) =
        Some filtered \<and>
      length filtered = 2 \<and>
      filtered ! 0 = Fin 1 \<and>
      filtered ! 1 =
        fp_mul round32 (highpass_alpha (Fin 100) 16000)
          (fp_sub round32 (fp_add round32 (filtered ! 0) (Fin 0)) (Fin 1)))"
proof -
  have e: "0 < length (float_arrays (env_of [] [Fin 1, Fin 0] []))"
    "no_failure (env_of [] [Fin 1, Fin 0] [])"
    "float_arrays (env_of [] [Fin 1, Fin 0] []) ! 0 = [Fin 1, Fin 0]"
    "[Fin 1, Fin 0] \<noteq> []"
    by (simp_all add: env_of_def no_failure_def)
  from highPassFilter_first_order_recurrence [OF e, of "Fin 100" 16000]
  obtain filtered where
    "returned_floats (highPassFilter (env_of [] [Fin 1, Fin 0] []) 0 (Fin 100) 16000) = Some filtered"
    "length filtered = length [Fin 1, Fin 0]"
    "filtered ! 0 = [Fin 1, Fin 0] ! 0"
    "\<forall>i. 1 \<le> i \<and> i < length [Fin 1, Fin 0] \<longrightarrow>
              filtered ! i =
                fp_mul round32 (highpass_alpha (Fin 100) 16000)
                  (fp_sub round32 (fp_add round32 (filtered ! (i - 1)) ([Fin 1, Fin 0] ! i))
                     ([Fin 1, Fin 0] ! (i - 1)))"
    by blast
  then show ?thesis using e by (intro conjI exI [of _ filtered]) simp_all
qed

text \<open>
  C10. \<^verbatim>\<open>highPassFilter\<close> copies \<open>audio[0]\<close> to \<open>filtered[0]\<close> before its loop and
  without a check. When the JNI calls succeed, the run makes an access out of bounds exactly
  when the input is empty: on the empty input the access at index 0 is out of bounds; on an
  input of at least one sample every access, the one at index 0 and those of the loop at
  \<open>i - 1\<close> and \<open>i\<close>, is in bounds, the run ends without any fault and returns the new array.
\<close>

theorem highPassFilter_in_bounds_iff_nonempty:
  assumes "audio_data < length (float_arrays env)" and "no_failure env"
  shows "(fst (highPassFilter env audio_data cutoff_freq sample_rate) = Inl OutOfBounds
            \<longleftrightarrow> length (float_arrays env ! audio_data) = 0) \<and>
         (fst (highPassFilter env audio_data cutoff_freq sample_rate) =
            Inr (Some (length (float_arrays env)))
            \<longleftrightarrow> 1 \<le> length (float_arrays env ! audio_data)) \<and>
         ((\<forall>f. fst (highPassFilter env audio_data cutoff_freq sample_rate) \<noteq> Inl f)
            \<longleftrightarrow> 1 \<le> length (float_arrays env ! audio_data))"
  using highPassFilter_outcome [OF assms, of cutoff_freq sample_rate]
  by (auto simp: Suc_le_eq)

theorem highPassFilter_in_bounds_iff_nonempty_witness:
  "0 < length (float_arrays (env_of [] [] [])) \<and> no_failure (env_of [] [] []) \<and>
   fst (highPassFilter (env_of [] [] []) 0 (Fin 100) 16000) = Inl OutOfBounds \<and>
   0 < length (float_arrays (env_of [] [Fin 1, Fin 0, Fin 1] [])) \<and>
   no_failure (env_of [] [Fin 1, Fin 0, Fin 1] []) \<and>
   fst (highPassFilter (env_of [] [Fin 1, Fin 0, Fin 1] []) 0 (Fin 100) 16000) = Inr (Some 1) \<and>
   (\<forall>f. fst (highPassFilter (env_of [] [Fin 1, Fin 0, Fin 1] []) 0 (Fin 100) 16000) \<noteq> Inl f)"
  using highPassFilter_in_bounds_iff_nonempty [of 0 "env_of [] [] []" "Fin 100" 16000]
    highPassFilter_in_bounds_iff_nonempty [of 0 "env_of [] [Fin 1, Fin 0, Fin 1] []" "Fin 100" 16000]
  by (simp add: env_of_def no_failure_def)

text \<open>
  One step of the filter on a constant input \<open>x\<close>, from the previous output \<open>u\<close> between 0
  and \<open>x\<close>: the sum \<open>u + x\<close>, the difference and the product with \<open>a\<close> in \<open>[0, 1]\<close> are each
  rounded. The result is again between 0 and \<open>x\<close> and differs from \<open>a * u\<close> by the three
  rounding errors.
\<close>

lemma constant_step_nonneg:
  assumes x: "round_unbounded 24 (- 126) x = x" and u: "0 \<le> u" "u \<le> x"
    and a: "0 \<le> a" "a \<le> 1"
    and s: "s = round_unbounded 24 (- 126) (u + x)"
    and t: "t = round_unbounded 24 (- 126) (s - x)"
    and v: "v = round_unbounded 24 (- 126) (a * t)"
  shows "x \<le> s \<and> s \<le> 2 * x" and "0 \<le> t \<and> t \<le> x" and "0 \<le> v \<and> v \<le> x"
    and "\<bar>v - a * u\<bar> \<le> x / 2 ^ 22 + 1 / 2 ^ 148"
proof -
  define U :: real where "U = 2 powi (- 24)"
  define H :: real where "H = 2 powi (- 150)"
  define A :: real where "A = 1 / 2 ^ 22"
  define B :: real where "B = 1 / 2 ^ 148"
  have UH: "0 \<le> U" "0 \<le> H" "4 * U = A" "3 * H \<le> B"
    by (simp_all add: U_def H_def A_def B_def)
  have err: "\<bar>round_unbounded 24 (- 126) z - z\<bar> \<le> U * \<bar>z\<bar> + H" for z
    using round_unbounded_error_abs [of 24 "- 126" z] by (simp add: U_def H_def)
  have x0: "0 \<le> x" using u by simp
  have x2: "round_unbounded 24 (- 126) (2 * x) = 2 * x"
    using x by (intro round_unbounded_double) simp_all
  have "round_unbounded 24 (- 126) x \<le> s" "s \<le> round_unbounded 24 (- 126) (2 * x)"
    unfolding s using u by (intro round_unbounded_mono; simp)+
  then show sb: "x \<le> s \<and> s \<le> 2 * x" by (simp add: x x2)
  have "round_unbounded 24 (- 126) 0 \<le> t" "t \<le> round_unbounded 24 (- 126) x"
    unfolding t using sb by (intro round_unbounded_mono; simp)+
  then show tb: "0 \<le> t \<and> t \<le> x" by (simp add: x)
  have at: "0 \<le> a * t" "a * t \<le> x"
  proof -
    show "0 \<le> a * t" using a tb by simp
    have "a * t \<le> 1 * t" using a tb by (intro mult_right_mono) auto
    then show "a * t \<le> x" using tb by simp
  qed
  have "round_unbounded 24 (- 126) 0 \<le> v" "v \<le> round_unbounded 24 (- 126) x"
    unfolding v using at by (intro round_unbounded_mono; simp)+
  then show "0 \<le> v \<and> v \<le> x" by (simp add: x)
  have e1: "\<bar>s - (u + x)\<bar> \<le> U * (2 * x) + H"
  proof -
    have "\<bar>s - (u + x)\<bar> \<le> U * \<bar>u + x\<bar> + H" unfolding s by (rule err)
    also have "U * \<bar>u + x\<bar> \<le> U * (2 * x)" using u UH(1) by (intro mult_left_mono) auto
    finally show ?thesis by simp
  qed
  have e2: "\<bar>t - (s - x)\<bar> \<le> U * x + H"
  proof -
    have "\<bar>t - (s - x)\<bar> \<le> U * \<bar>s - x\<bar> + H" unfolding t by (rule err)
    also have "U * \<bar>s - x\<bar> \<le> U * x" using sb UH(1) by (intro mult_left_mono) auto
    finally show ?thesis by simp
  qed
  have e3: "\<bar>v - a * t\<bar> \<le> U * x + H"
  proof -
    have "\<bar>v - a * t\<bar> \<le> U * \<bar>a * t\<bar> + H" unfolding v by (rule err)
    also have "U * \<bar>a * t\<bar> \<le> U * x" using at UH(1) by (intro mult_left_mono) auto
    finally show ?thesis by simp
  qed
  have scale: "\<bar>a * z\<bar> \<le> \<bar>z\<bar>" for z
  proof -
    have "a * \<bar>z\<bar> \<le> 1 * \<bar>z\<bar>" using a by (intro mult_right_mono) auto
    then show ?thesis using a by (simp add: abs_mult)
  qed
  have "v - a * u = (v - a * t) + a * (t - (s - x)) + a * (s - (u + x))"
    by (simp add: algebra_simps)
  then have "\<bar>v - a * u\<bar> \<le> \<bar>v - a * t\<bar> + \<bar>a * (t - (s - x))\<bar> + \<bar>a * (s - (u + x))\<bar>"
    by linarith
  also have "\<dots> \<le> (U * x + H) + (U * x + H) + (U * (2 * x) + H)"
    using e1 e2 e3 scale [of "t - (s - x)"] scale [of "s - (u + x)"] by linarith
  also have "\<dots> = (4 * U) * x + 3 * H" by (simp add: algebra_simps)
  also have "\<dots> \<le> A * x + B" unfolding UH(3) using UH(4) by simp
  finally show "\<bar>v - a * u\<bar> \<le> x / 2 ^ 22 + 1 / 2 ^ 148" by (simp add: A_def B_def)
qed

lemma constant_step:
  assumes c: "round32 x = Fin x" "\<bar>x\<bar> < 2 ^ 127"
    and u: "\<bar>u\<bar> \<le> \<bar>x\<bar>" "0 \<le> u * x" and a: "0 \<le> a" "a \<le> 1"
  shows "\<exists>v. fp_mul round32 (Fin a) (fp_sub round32 (fp_add round32 (Fin u) (Fin x)) (Fin x)) =
               Fin v \<and>
             \<bar>v\<bar> \<le> \<bar>x\<bar> \<and> 0 \<le> v * x \<and> \<bar>v - a * u\<bar> \<le> \<bar>x\<bar> / 2 ^ 22 + 1 / 2 ^ 148"
proof -
  define s where "s = round_unbounded 24 (- 126) (u + x)"
  define t where "t = round_unbounded 24 (- 126) (s - x)"
  define v where "v = round_unbounded 24 (- 126) (a * t)"
  have rx: "round_unbounded 24 (- 126) x = x"
    using c(1) by (simp add: round32_def round_to_finite)
  have main: "\<bar>s\<bar> \<le> 2 * \<bar>x\<bar> \<and> \<bar>t\<bar> \<le> \<bar>x\<bar> \<and> \<bar>v\<bar> \<le> \<bar>x\<bar> \<and> 0 \<le> v * x \<and>
              \<bar>v - a * u\<bar> \<le> \<bar>x\<bar> / 2 ^ 22 + 1 / 2 ^ 148"
  proof (cases "0 \<le> x")
    case True
    have u0: "0 \<le> u"
    proof (cases "x = 0")
      case True
      with u(1) show ?thesis by simp
    next
      case False
      with True u(2) show ?thesis by (simp add: zero_le_mult_iff)
    qed
    have ux: "u \<le> x" using u(1) True by simp
    from constant_step_nonneg [OF rx u0 ux a s_def t_def v_def] True
    show ?thesis by (simp add: abs_le_iff)
  next
    case False
    then have xn: "x < 0" by simp
    have u0: "0 \<le> - u" using u(2) xn by (simp add: zero_le_mult_iff)
    have ux: "- u \<le> - x" using u(1) xn by simp
    have rx': "round_unbounded 24 (- 126) (- x) = - x" by (simp add: round_unbounded_minus rx)
    have s': "- s = round_unbounded 24 (- 126) (- u + - x)"
      using round_unbounded_minus [of 24 "- 126" "u + x"] by (simp add: s_def)
    have t': "- t = round_unbounded 24 (- 126) (- s - - x)"
      using round_unbounded_minus [of 24 "- 126" "s - x"] by (simp add: t_def)
    have v': "- v = round_unbounded 24 (- 126) (a * - t)"
      using round_unbounded_minus [of 24 "- 126" "a * t"] by (simp add: v_def)
    from constant_step_nonneg [OF rx' u0 ux a s' t' v'] xn
    have "- x \<le> - s \<and> - s \<le> 2 * - x" "0 \<le> - t \<and> - t \<le> - x" "0 \<le> - v \<and> - v \<le> - x"
      "\<bar>- v - a * - u\<bar> \<le> - x / 2 ^ 22 + 1 / 2 ^ 148"
      by simp_all
    moreover have "\<bar>- v - a * - u\<bar> = \<bar>v - a * u\<bar>" by (simp add: abs_minus_commute)
    moreover have "0 \<le> v * x" if "v \<le> 0" using that xn by (simp add: mult_nonpos_nonpos)
    ultimately show ?thesis using xn by (simp add: abs_le_iff)
  qed
  have "\<bar>s\<bar> < 2 powi (127 + 1)" "\<bar>t\<bar> < 2 powi (127 + 1)" "\<bar>v\<bar> < 2 powi (127 + 1)"
    using main c(2) by simp_all
  then have "round32 (u + x) = Fin s" "round32 (s - x) = Fin t" "round32 (a * t) = Fin v"
    by (simp_all add: round32_def round_to_finite s_def t_def v_def)
  then have "fp_mul round32 (Fin a) (fp_sub round32 (fp_add round32 (Fin u) (Fin x)) (Fin x)) =
               Fin v"
    by (simp add: fp_sub_def)
  with main show ?thesis by blast
qed

text \<open>
  The filter coefficient for a positive cutoff frequency and a positive sample rate: \<open>dt\<close>
  is a number that is not negative, \<open>rc\<close> is such a \<^verbatim>\<open>float\<close> or infinite, and \<open>alpha\<close> is a
  number between 0 and 1, or NaN (when \<open>rc\<close> is infinite or both \<open>rc\<close> and \<open>dt\<close> are 0).
\<close>

lemma round32_unit_interval:
  assumes "0 \<le> x" "x \<le> 1"
  shows "\<exists>y. round32 x = Fin y \<and> 0 \<le> y \<and> y \<le> 1"
proof -
  have "round32 1 = Fin 1" using round32_int [of 1] by simp
  then show ?thesis
    using round_to_between [OF assms, of 24 "- 126" 127] by (auto simp: round32_def)
qed

lemma reciprocal_of_rate:
  assumes "1 \<le> n"
  shows "\<exists>d. fp_div round32 (Fin 1) (int_to_float n) = Fin d \<and> 0 \<le> d"
proof -
  have "1 \<le> real_of_int n" using assms by simp
  then have "round32 (of_int n) = PInf \<or> (\<exists>y. round32 (of_int n) = Fin y \<and> 1 \<le> y)"
    unfolding round32_def by (intro round_to_ge_one) auto
  then show ?thesis
  proof
    assume "round32 (of_int n) = PInf"
    then show ?thesis by (simp add: int_to_float_def)
  next
    assume "\<exists>y. round32 (of_int n) = Fin y \<and> 1 \<le> y"
    then obtain y where y: "round32 (of_int n) = Fin y" "1 \<le> y" by blast
    then have "0 \<le> 1 / y" "1 / y \<le> 1" by simp_all
    from round32_unit_interval [OF this] obtain d where "round32 (1 / y) = Fin d" "0 \<le> d"
      by blast
    then show ?thesis using y by (simp add: int_to_float_def)
  qed
qed

lemma highpass_dt_range:
  assumes "0 < sint sample_rate"
  shows "\<exists>d. highpass_dt sample_rate = Fin d \<and> 0 \<le> d"
  unfolding highpass_dt_def using assms by (intro reciprocal_of_rate) simp

lemma highpass_rc_range:
  assumes "0 < f"
  shows "highpass_rc (Fin f) = PInf \<or>
         (\<exists>r. highpass_rc (Fin f) = Fin r \<and> 0 \<le> r \<and> round_unbounded 24 (- 126) r = r)"
proof -
  define k :: real where "k = 884279719003555 / 140737488355328"
  have twopi: "fp_mul round64 (Fin 2) M_PI = Fin k"
    using round_to_exact [of 884279719003555 53 "- 1022" "- 47" 1023]
    by (simp add: M_PI_value round64_def k_def)
  have kf: "0 \<le> k * f" using assms by (simp add: k_def)
  define inv where "inv = fp_div round64 (Fin 1) (round64 (k * f))"
  have rc: "highpass_rc (Fin f) = double_to_float inv"
    by (simp add: highpass_rc_def twopi inv_def)
  have "inv = PInf \<or> (\<exists>w. inv = Fin w \<and> 0 \<le> w)"
    using round_to_nonneg [OF kf, of 53 "- 1022" 1023]
  proof
    assume "round_to 53 (- 1022) 1023 (k * f) = PInf"
    then show ?thesis by (simp add: inv_def round64_def)
  next
    assume "\<exists>y. round_to 53 (- 1022) 1023 (k * f) = Fin y \<and> 0 \<le> y \<and>
                 y = round_unbounded 53 (- 1022) (k * f)"
    then obtain m where m: "round64 (k * f) = Fin m" "0 \<le> m" by (auto simp: round64_def)
    show ?thesis
    proof (cases "m = 0")
      case True
      with m show ?thesis by (simp add: inv_def inf_signed_def)
    next
      case False
      with m have "0 \<le> 1 / m" by simp
      from round_to_nonneg [OF this, of 53 "- 1022" 1023] m False
      show ?thesis by (auto simp: inv_def round64_def)
    qed
  qed
  then show ?thesis
  proof
    assume "inv = PInf"
    then show ?thesis by (simp add: rc)
  next
    assume "\<exists>w. inv = Fin w \<and> 0 \<le> w"
    then obtain w where w: "inv = Fin w" "0 \<le> w" by blast
    from round_to_nonneg [OF w(2), of 24 "- 126" 127]
    show ?thesis
    proof
      assume "round_to 24 (- 126) 127 w = PInf"
      then show ?thesis by (simp add: rc w round32_def)
    next
      assume "\<exists>y. round_to 24 (- 126) 127 w = Fin y \<and> 0 \<le> y \<and>
                   y = round_unbounded 24 (- 126) w"
      then obtain r where r: "round32 w = Fin r" "0 \<le> r" "r = round_unbounded 24 (- 126) w"
        by (auto simp: round32_def)
      have "round_unbounded 24 (- 126) r = r"
        unfolding r(3) by (rule round_unbounded_idem) simp
      with r show ?thesis by (simp add: rc w)
    qed
  qed
qed

lemma highpass_alpha_range:
  assumes "0 < f" "0 < sint sample_rate"
  shows "highpass_alpha (Fin f) sample_rate = NaN \<or>
         (\<exists>a. highpass_alpha (Fin f) sample_rate = Fin a \<and> 0 \<le> a \<and> a \<le> 1)"
proof -
  obtain d where d: "highpass_dt sample_rate = Fin d" "0 \<le> d"
    using highpass_dt_range [OF assms(2)] by blast
  from highpass_rc_range [OF assms(1)] show ?thesis
  proof
    assume "highpass_rc (Fin f) = PInf"
    then show ?thesis by (simp add: highpass_alpha_def d)
  next
    assume "\<exists>r. highpass_rc (Fin f) = Fin r \<and> 0 \<le> r \<and> round_unbounded 24 (- 126) r = r"
    then obtain r where r: "highpass_rc (Fin f) = Fin r" "0 \<le> r"
      "round_unbounded 24 (- 126) r = r"
      by blast
    have al: "highpass_alpha (Fin f) sample_rate = fp_div round32 (Fin r) (round32 (r + d))"
      by (simp add: highpass_alpha_def d r Let_def)
    have rd: "0 \<le> r + d" using r(2) d(2) by simp
    from round_to_nonneg [OF rd, of 24 "- 126" 127] show ?thesis
    proof
      assume "round_to 24 (- 126) 127 (r + d) = PInf"
      then have "highpass_alpha (Fin f) sample_rate = Fin 0" by (simp add: al round32_def)
      then show ?thesis by simp
    next
      assume "\<exists>y. round_to 24 (- 126) 127 (r + d) = Fin y \<and> 0 \<le> y \<and>
                   y = round_unbounded 24 (- 126) (r + d)"
      then obtain w where w: "round32 (r + d) = Fin w" "w = round_unbounded 24 (- 126) (r + d)"
        by (auto simp: round32_def)
      have "round_unbounded 24 (- 126) r \<le> w"
        unfolding w(2) using d(2) by (intro round_unbounded_mono) simp_all
      then have rw: "r \<le> w" by (simp add: r(3))
      have al': "highpass_alpha (Fin f) sample_rate = fp_div round32 (Fin r) (Fin w)"
        by (simp only: al w(1))
      show ?thesis
      proof (cases "w = 0")
        case True
        with rw r(2) have "r = 0" by simp
        with True show ?thesis by (simp add: al')
      next
        case False
        with rw r(2) have "0 \<le> r / w" "r / w \<le> 1" by simp_all
        from round32_unit_interval [OF this] False show ?thesis by (simp add: al')
      qed
    qed
  qed
qed

lemma highPassFilter_constant_indexed:
  assumes "audio_data < length (float_arrays env)" and "no_failure env"
    and "float_arrays env ! audio_data = replicate N c" and "0 < N"
  shows "\<exists>filtered.
           returned_floats (highPassFilter env audio_data cutoff_freq sample_rate) = Some filtered \<and>
           length filtered = N \<and>
           filtered ! 0 = c \<and>
           (\<forall>i. 1 \<le> i \<and> i < N \<longrightarrow>
              filtered ! i =
                fp_mul round32 (highpass_alpha cutoff_freq sample_rate)
                  (fp_sub round32 (fp_add round32 (filtered ! (i - 1)) c) c))"
proof -
  have ne: "replicate N c \<noteq> []" using assms(4) by simp
  from highPassFilter_indexed [OF assms(1-3) ne, of cutoff_freq sample_rate]
  obtain filtered where f:
    "returned_floats (highPassFilter env audio_data cutoff_freq sample_rate) = Some filtered"
    "length filtered = length (replicate N c)"
    "filtered ! 0 = replicate N c ! 0"
    "\<forall>i. 1 \<le> i \<and> i < length (replicate N c) \<longrightarrow>
              filtered ! i =
                fp_mul round32 (highpass_alpha cutoff_freq sample_rate)
                  (fp_sub round32 (fp_add round32 (filtered ! (i - 1)) (replicate N c ! i))
                     (replicate N c ! (i - 1)))"
    by blast
  have len: "length filtered = N" using f(2) by simp
  have first: "filtered ! 0 = c" using f(3) assms(4) by simp
  have step: "filtered ! i =
                fp_mul round32 (highpass_alpha cutoff_freq sample_rate)
                  (fp_sub round32 (fp_add round32 (filtered ! (i - 1)) c) c)"
    if "1 \<le> i \<and> i < N" for i
  proof -
    have "i - 1 < N" "i < N" using that by auto
    then have "replicate N c ! i = c" "replicate N c ! (i - 1) = c"
      by (simp_all only: nth_replicate)
    moreover have "1 \<le> i \<and> i < length (replicate N c)" using that by simp
    ultimately show ?thesis using f(4) [rule_format, of i] by simp
  qed
  show ?thesis using f(1) len first step by blast
qed

text \<open>
  C9, as the source has it. For a constant input (every sample equal to \<open>c\<close>) of length
  \<open>N \<ge> 1\<close>, \<open>filtered[0] = c\<close> and, for every \<open>i \<ge> 1\<close>,
  \<open>filtered[i] = alpha * ((filtered[i-1] + c) - c)\<close> in \<^verbatim>\<open>float\<close> arithmetic. The sum, the
  difference and the product are rounded, so this is \<open>alpha * filtered[i-1]\<close> only up to the
  three roundings: when \<open>c\<close> is a \<^verbatim>\<open>float\<close> of magnitude below \<open>2\<^sup>1\<^sup>2\<^sup>7\<close>, the cutoff frequency and
  the sample rate are positive and \<open>alpha\<close> is not NaN, \<open>alpha\<close> is a number in \<open>[0, 1]\<close>, every
  output sample is a number between 0 and \<open>c\<close>,
  \<open>|filtered[i] - alpha * filtered[i-1]| \<le> |c| / 2\<^sup>2\<^sup>2 + 1 / 2\<^sup>1\<^sup>4\<^sup>8\<close> for every \<open>i \<ge> 1\<close>, and
  \<open>|filtered[i] - alpha\<^sup>i * c| \<le> i * (|c| / 2\<^sup>2\<^sup>2 + 1 / 2\<^sup>1\<^sup>4\<^sup>8)\<close> for every \<open>i\<close>: the output
  is the geometric sequence \<open>alpha\<^sup>i * c\<close> up to the accumulated rounding errors.
\<close>

theorem highPassFilter_constant_input:
  assumes "audio_data < length (float_arrays env)" and "no_failure env"
    and "float_arrays env ! audio_data = replicate N c" and "0 < N"
  shows "\<exists>filtered.
           returned_floats (highPassFilter env audio_data cutoff_freq sample_rate) = Some filtered \<and>
           length filtered = N \<and>
           filtered ! 0 = c \<and>
           (\<forall>i. 1 \<le> i \<and> i < N \<longrightarrow>
              filtered ! i =
                fp_mul round32 (highpass_alpha cutoff_freq sample_rate)
                  (fp_sub round32 (fp_add round32 (filtered ! (i - 1)) c) c)) \<and>
           (\<forall>x f. c = Fin x \<and> round32 x = Fin x \<and> \<bar>x\<bar> < 2 ^ 127 \<and>
                   cutoff_freq = Fin f \<and> 0 < f \<and> 0 < sint sample_rate \<and>
                   highpass_alpha cutoff_freq sample_rate \<noteq> NaN \<longrightarrow>
              (\<exists>a. highpass_alpha cutoff_freq sample_rate = Fin a \<and> 0 \<le> a \<and> a \<le> 1 \<and>
                 (\<forall>i. 1 \<le> i \<and> i < N \<longrightarrow>
                    (\<exists>u v. filtered ! (i - 1) = Fin u \<and> filtered ! i = Fin v \<and>
                       \<bar>v\<bar> \<le> \<bar>x\<bar> \<and> 0 \<le> v * x \<and>
                       \<bar>v - a * u\<bar> \<le> \<bar>x\<bar> / 2 ^ 22 + 1 / 2 ^ 148)) \<and>
                 (\<forall>i. i < N \<longrightarrow>
                    (\<exists>v. filtered ! i = Fin v \<and>
                       \<bar>v - a ^ i * x\<bar> \<le> real i * (\<bar>x\<bar> / 2 ^ 22 + 1 / 2 ^ 148)))))"
proof -
  from highPassFilter_constant_indexed [OF assms, of cutoff_freq sample_rate]
  obtain filtered where f:
    "returned_floats (highPassFilter env audio_data cutoff_freq sample_rate) = Some filtered"
    and len: "length filtered = N" and first: "filtered ! 0 = c"
    and step: "\<And>i. 1 \<le> i \<and> i < N \<Longrightarrow>
                filtered ! i =
                  fp_mul round32 (highpass_alpha cutoff_freq sample_rate)
                    (fp_sub round32 (fp_add round32 (filtered ! (i - 1)) c) c)"
    by blast
  have decay: "\<exists>a. highpass_alpha cutoff_freq sample_rate = Fin a \<and> 0 \<le> a \<and> a \<le> 1 \<and>
                 (\<forall>i. 1 \<le> i \<and> i < N \<longrightarrow>
                    (\<exists>u v. filtered ! (i - 1) = Fin u \<and> filtered ! i = Fin v \<and>
                       \<bar>v\<bar> \<le> \<bar>x\<bar> \<and> 0 \<le> v * x \<and>
                       \<bar>v - a * u\<bar> \<le> \<bar>x\<bar> / 2 ^ 22 + 1 / 2 ^ 148)) \<and>
                 (\<forall>i. i < N \<longrightarrow>
                    (\<exists>v. filtered ! i = Fin v \<and>
                       \<bar>v - a ^ i * x\<bar> \<le> real i * (\<bar>x\<bar> / 2 ^ 22 + 1 / 2 ^ 148)))"
    if h: "c = Fin x \<and> round32 x = Fin x \<and> \<bar>x\<bar> < 2 ^ 127 \<and>
           cutoff_freq = Fin f \<and> 0 < f \<and> 0 < sint sample_rate \<and>
           highpass_alpha cutoff_freq sample_rate \<noteq> NaN"
    for x f
  proof -
    from h have c: "c = Fin x" and fl: "round32 x = Fin x" and x: "\<bar>x\<bar> < 2 ^ 127"
      and cf: "cutoff_freq = Fin f" and pos: "0 < f" "0 < sint sample_rate"
      and nn: "highpass_alpha cutoff_freq sample_rate \<noteq> NaN"
      by blast+
    obtain a where a: "highpass_alpha cutoff_freq sample_rate = Fin a" "0 \<le> a" "a \<le> 1"
      using highpass_alpha_range [OF pos] nn unfolding cf by blast
    have inv: "i < N \<Longrightarrow> \<exists>u. filtered ! i = Fin u \<and> \<bar>u\<bar> \<le> \<bar>x\<bar> \<and> 0 \<le> u * x" for i
    proof (induction i)
      case 0
      have "filtered ! 0 = Fin x \<and> \<bar>x\<bar> \<le> \<bar>x\<bar> \<and> 0 \<le> x * x" using first c by simp
      then show ?case by blast
    next
      case (Suc i)
      then obtain u where u: "filtered ! i = Fin u" "\<bar>u\<bar> \<le> \<bar>x\<bar>" "0 \<le> u * x" by auto
      from constant_step [OF fl x u(2,3) a(2,3)] obtain v where
        "fp_mul round32 (Fin a) (fp_sub round32 (fp_add round32 (Fin u) (Fin x)) (Fin x)) = Fin v"
        "\<bar>v\<bar> \<le> \<bar>x\<bar>" "0 \<le> v * x"
        by blast
      moreover have "filtered ! Suc i =
          fp_mul round32 (Fin a) (fp_sub round32 (fp_add round32 (Fin u) (Fin x)) (Fin x))"
        using step [of "Suc i"] Suc.prems by (simp add: a(1) c u(1))
      ultimately show ?case by auto
    qed
    have near: "\<exists>u v. filtered ! (i - 1) = Fin u \<and> filtered ! i = Fin v \<and>
                 \<bar>v\<bar> \<le> \<bar>x\<bar> \<and> 0 \<le> v * x \<and> \<bar>v - a * u\<bar> \<le> \<bar>x\<bar> / 2 ^ 22 + 1 / 2 ^ 148"
      if i: "1 \<le> i \<and> i < N" for i
    proof -
      have "i - 1 < N" using i by auto
      from inv [OF this] obtain u where u: "filtered ! (i - 1) = Fin u" "\<bar>u\<bar> \<le> \<bar>x\<bar>" "0 \<le> u * x"
        by blast
      from constant_step [OF fl x u(2,3) a(2,3)] obtain v where v:
        "fp_mul round32 (Fin a) (fp_sub round32 (fp_add round32 (Fin u) (Fin x)) (Fin x)) = Fin v"
        "\<bar>v\<bar> \<le> \<bar>x\<bar>" "0 \<le> v * x" "\<bar>v - a * u\<bar> \<le> \<bar>x\<bar> / 2 ^ 22 + 1 / 2 ^ 148"
        by blast
      have "filtered ! i = Fin v"
        using step [OF i] v(1) by (simp only: a(1) c u(1))
      with u(1) v(2-4) show ?thesis by blast
    qed
    define E where "E = \<bar>x\<bar> / 2 ^ 22 + 1 / 2 ^ 148"
    have E: "0 \<le> E" by (simp add: E_def)
    have closed: "i < N \<Longrightarrow> \<exists>v. filtered ! i = Fin v \<and> \<bar>v - a ^ i * x\<bar> \<le> real i * E" for i
    proof (induction i)
      case 0
      have "filtered ! 0 = Fin x \<and> \<bar>x - a ^ 0 * x\<bar> \<le> real 0 * E" using first c by simp
      then show ?case by blast
    next
      case (Suc i)
      then obtain u where u: "filtered ! i = Fin u" "\<bar>u - a ^ i * x\<bar> \<le> real i * E" by auto
      from near [of "Suc i"] Suc.prems u(1) obtain v where
        v: "filtered ! Suc i = Fin v" "\<bar>v - a * u\<bar> \<le> E"
        by (auto simp: E_def)
      have "a * \<bar>u - a ^ i * x\<bar> \<le> 1 * (real i * E)"
        using a(2,3) u(2) by (intro mult_mono) auto
      moreover have "v - a ^ Suc i * x = (v - a * u) + a * (u - a ^ i * x)"
        by (simp add: algebra_simps)
      moreover have "\<bar>a * (u - a ^ i * x)\<bar> = a * \<bar>u - a ^ i * x\<bar>"
        using a(2) by (simp add: abs_mult)
      ultimately have "\<bar>v - a ^ Suc i * x\<bar> \<le> E + real i * E" using v(2) by linarith
      also have "\<dots> = real (Suc i) * E" by (simp add: algebra_simps)
      finally show ?case using v(1) by blast
    qed
    from a near closed show ?thesis unfolding E_def by blast
  qed
  show ?thesis using f len first step decay by blast
qed

theorem highPassFilter_constant_input_witness:
  "0 < length (float_arrays (env_of [] (replicate 4 (Fin 1)) [])) \<and>
   no_failure (env_of [] (replicate 4 (Fin 1)) []) \<and>
   float_arrays (env_of [] (replicate 4 (Fin 1)) []) ! 0 = replicate 4 (Fin 1) \<and>
   (0::nat) < 4 \<and>
   round32 1 = Fin 1 \<and> \<bar>1::real\<bar> < 2 ^ 127 \<and> (0::real) < 100 \<and>
   0 < sint (16000 :: jint) \<and>
   highpass_alpha (Fin 100) 16000 = Fin (16143271 / 16777216) \<and>
   (\<exists>filtered.
      returned_floats (highPassFilter (env_of [] (replicate 4 (Fin 1)) []) 0 (Fin 100) 16000) =
        Some filtered \<and>
      length filtered = 4 \<and>
      filtered ! 0 = Fin 1 \<and>
      (\<forall>i. 1 \<le> i \<and> i < 4 \<longrightarrow>
         filtered ! i =
           fp_mul round32 (highpass_alpha (Fin 100) 16000)
             (fp_sub round32 (fp_add round32 (filtered ! (i - 1)) (Fin 1)) (Fin 1))) \<and>
      (\<forall>i. 1 \<le> i \<and> i < 4 \<longrightarrow>
         (\<exists>u v. filtered ! (i - 1) = Fin u \<and> filtered ! i = Fin v \<and> \<bar>v\<bar> \<le> 1 \<and> 0 \<le> v \<and>
            \<bar>v - 16143271 / 16777216 * u\<bar> \<le> 1 / 2 ^ 22 + 1 / 2 ^ 148)) \<and>
      (\<forall>i. i < 4 \<longrightarrow>
         (\<exists>v. filtered ! i = Fin v \<and>
            \<bar>v - (16143271 / 16777216) ^ i\<bar> \<le> real i * (1 / 2 ^ 22 + 1 / 2 ^ 148))))"
proof -
  have e: "0 < length (float_arrays (env_of [] (replicate 4 (Fin 1)) []))"
    "no_failure (env_of [] (replicate 4 (Fin 1)) [])"
    "float_arrays (env_of [] (replicate 4 (Fin 1)) []) ! 0 = replicate 4 (Fin 1)"
    "(0::nat) < 4"
    by (simp_all add: env_of_def no_failure_def)
  have r: "round32 1 = Fin 1" using round32_int [of 1] by simp
  have n: "\<bar>1::real\<bar> < 2 ^ 127" "(0::real) < 100" "0 < sint (16000 :: jint)" by simp_all
  note al = highpass_alpha_100_16000
  from highPassFilter_constant_input [OF e, of "Fin 100" 16000]
  obtain filtered where f:
    "returned_floats (highPassFilter (env_of [] (replicate 4 (Fin 1)) []) 0 (Fin 100) 16000) =
       Some filtered"
    "length filtered = 4" "filtered ! 0 = Fin 1"
    "\<forall>i. 1 \<le> i \<and> i < 4 \<longrightarrow>
         filtered ! i =
           fp_mul round32 (highpass_alpha (Fin 100) 16000)
             (fp_sub round32 (fp_add round32 (filtered ! (i - 1)) (Fin 1)) (Fin 1))"
    "\<forall>x f. Fin 1 = Fin x \<and> round32 x = Fin x \<and> \<bar>x\<bar> < 2 ^ 127 \<and>
            Fin 100 = Fin f \<and> 0 < f \<and> 0 < sint (16000 :: jint) \<and>
            highpass_alpha (Fin 100) 16000 \<noteq> NaN \<longrightarrow>
       (\<exists>a. highpass_alpha (Fin 100) 16000 = Fin a \<and> 0 \<le> a \<and> a \<le> 1 \<and>
          (\<forall>i. 1 \<le> i \<and> i < 4 \<longrightarrow>
             (\<exists>u v. filtered ! (i - 1) = Fin u \<and> filtered ! i = Fin v \<and>
                \<bar>v\<bar> \<le> \<bar>x\<bar> \<and> 0 \<le> v * x \<and>
                \<bar>v - a * u\<bar> \<le> \<bar>x\<bar> / 2 ^ 22 + 1 / 2 ^ 148)) \<and>
          (\<forall>i. i < 4 \<longrightarrow>
             (\<exists>v. filtered ! i = Fin v \<and>
                \<bar>v - a ^ i * x\<bar> \<le> real i * (\<bar>x\<bar> / 2 ^ 22 + 1 / 2 ^ 148))))"
    by blast
  have "Fin 1 = Fin 1 \<and> round32 1 = Fin 1 \<and> \<bar>1::real\<bar> < 2 ^ 127 \<and>
        Fin 100 = Fin 100 \<and> (0::real) < 100 \<and> 0 < sint (16000 :: jint) \<and>
        highpass_alpha (Fin 100) 16000 \<noteq> NaN"
    using r n by (simp add: al)
  from f(5) [rule_format, OF this] obtain a where a:
    "highpass_alpha (Fin 100) 16000 = Fin a"
    "\<forall>i. 1 \<le> i \<and> i < 4 \<longrightarrow>
       (\<exists>u v. filtered ! (i - 1) = Fin u \<and> filtered ! i = Fin v \<and>
          \<bar>v\<bar> \<le> \<bar>1\<bar> \<and> 0 \<le> v * 1 \<and> \<bar>v - a * u\<bar> \<le> \<bar>1\<bar> / 2 ^ 22 + 1 / 2 ^ 148)"
    "\<forall>i. i < 4 \<longrightarrow>
       (\<exists>v. filtered ! i = Fin v \<and> \<bar>v - a ^ i * 1\<bar> \<le> real i * (\<bar>1\<bar> / 2 ^ 22 + 1 / 2 ^ 148))"
    by blast
  have av: "a = 16143271 / 16777216" using a(1) by (simp add: al)
  from a(2) have d: "\<forall>i. 1 \<le> i \<and> i < 4 \<longrightarrow>
         (\<exists>u v. filtered ! (i - 1) = Fin u \<and> filtered ! i = Fin v \<and> \<bar>v\<bar> \<le> 1 \<and> 0 \<le> v \<and>
            \<bar>v - 16143271 / 16777216 * u\<bar> \<le> 1 / 2 ^ 22 + 1 / 2 ^ 148)"
    unfolding av by simp
  from a(3) have g: "\<forall>i. i < 4 \<longrightarrow>
         (\<exists>v. filtered ! i = Fin v \<and>
            \<bar>v - (16143271 / 16777216) ^ i\<bar> \<le> real i * (1 / 2 ^ 22 + 1 / 2 ^ 148))"
    unfolding av by simp
  from e r n al f(1-4) d g show ?thesis by blast
qed

text \<open>
  The claim as stated fails on the specification's own example: for the input
  \<open>[1, 1, 1, 1]\<close>, cutoff 100 Hz and 16000 Hz, \<open>filtered[1] = alpha = 16143271 / 2\<^sup>2\<^sup>4\<close>, the
  sum \<open>filtered[1] + 1\<close> is a tie and rounds up, and \<open>filtered[2] = 15533281 / 2\<^sup>2\<^sup>4\<close>,
  whereas \<open>alpha * filtered[1]\<close> is \<open>15533280 / 2\<^sup>2\<^sup>4\<close>.
\<close>

lemma highPassFilter_ones:
  "returned_floats (highPassFilter (env_of [] [Fin 1, Fin 1, Fin 1, Fin 1] []) 0 (Fin 100) 16000) =
     Some [Fin 1, Fin (16143271 / 16777216), Fin (15533281 / 16777216), Fin (7473169 / 8388608)]"
proof -
  have r1: "round32 (2) = Fin (2)"
   
      using round_to_certificate [of 1 "2" "2 powi (- 22)" "- 126" 24 8388608 127]
      by (simp add: round32_def)
  have r2: "round32 (1) = Fin (1)"
   
      using round_to_certificate [of 0 "1" "2 powi (- 23)" "- 126" 24 8388608 127]
      by (simp add: round32_def)
  have r3: "round32 (16143271 / 16777216) = Fin (16143271 / 16777216)"
   
      using round_to_certificate [of "- 1" "16143271 / 16777216" "2 powi (- 24)" "- 126" 24 16143271 127]
      by (simp add: round32_def)
  have r4: "round32 (32920487 / 16777216) = Fin (4115061 / 2097152)"
   
      using round_to_certificate_tie [of 0 "32920487 / 16777216" "2 powi (- 23)" "- 126" 24 16460243 16460244 127]
      by (simp add: round32_def)
  have r5: "round32 (2017909 / 2097152) = Fin (2017909 / 2097152)"
   
      using round_to_certificate [of "- 1" "2017909 / 2097152" "2 powi (- 24)" "- 126" 24 16143272 127]
      by (simp add: round32_def)
  have r6: "round32 (32575651840339 / 35184372088832) = Fin (15533281 / 16777216)"
   
      using round_to_certificate [of "- 1" "32575651840339 / 35184372088832" "2 powi (- 24)" "- 126" 24 15533281 127]
      by (simp add: round32_def)
  have r7: "round32 (32310497 / 16777216) = Fin (1009703 / 524288)"
   
      using round_to_certificate_tie [of 0 "32310497 / 16777216" "2 powi (- 23)" "- 126" 24 16155248 16155248 127]
      by (simp add: round32_def)
  have r8: "round32 (485415 / 524288) = Fin (485415 / 524288)"
   
      using round_to_certificate [of "- 1" "485415 / 524288" "2 powi (- 24)" "- 126" 24 15533280 127]
      by (simp add: round32_def)
  have r9: "round32 (7836185892465 / 8796093022208) = Fin (7473169 / 8388608)"
   
      using round_to_certificate [of "- 1" "7836185892465 / 8796093022208" "2 powi (- 24)" "- 126" 24 14946338 127]
      by (simp add: round32_def)
  have "[0..<4] = [0, Suc 0, Suc (Suc 0), Suc (Suc (Suc 0))]" by (simp add: upt_rec)
  then show ?thesis
    using highPassFilter_result [of 0 "env_of [] [Fin 1, Fin 1, Fin 1, Fin 1] []" "Fin 100" 16000]
    by (simp add: env_of_def no_failure_def highpass_alpha_100_16000 fp_sub_def
        r1 r2 r3 r4 r5 r6 r7 r8 r9)
qed

theorem highPassFilter_constant_counterexample:
  "returned_floats (highPassFilter (env_of [] [Fin 1, Fin 1, Fin 1, Fin 1] []) 0 (Fin 100) 16000) =
     Some [Fin 1, Fin (16143271 / 16777216), Fin (15533281 / 16777216), Fin (7473169 / 8388608)] \<and>
   Fin (15533281 / 16777216) \<noteq>
     fp_mul round32 (highpass_alpha (Fin 100) 16000) (Fin (16143271 / 16777216))"
proof -
  have "round32 (260605198579441 / 281474976710656) = Fin (485415 / 524288)"
    using round_to_certificate [of "- 1" "260605198579441 / 281474976710656" "2 powi (- 24)" "- 126" 24 15533280 127]
    by (simp add: round32_def)
  then show ?thesis using highPassFilter_ones by (simp add: highpass_alpha_100_16000)
qed

text \<open>
  The deviation can stop the decay: for the constant 1, cutoff 100 Hz and 16000 Hz, the
  value \<open>1639551 / 2\<^sup>4\<^sup>0\<close> is reproduced by the step of the filter, as \<open>1 + 1639551 / 2\<^sup>4\<^sup>0\<close>
  rounds to \<open>1 + 13 / 2\<^sup>2\<^sup>3\<close>. An output that has reached it stays there and does not tend
  to zero.
\<close>

lemma highpass_constant_fixed_point:
  "fp_mul round32 (highpass_alpha (Fin 100) 16000)
     (fp_sub round32 (fp_add round32 (Fin (1639551 / 1099511627776)) (Fin 1)) (Fin 1)) =
   Fin (1639551 / 1099511627776)"
proof -
  have r1: "round32 (1099513267327 / 1099511627776) = Fin (8388621 / 8388608)"
    using round_to_certificate [of 0 "1099513267327 / 1099511627776" "2 powi (- 23)" "- 126" 24 8388621 127]
    by (simp add: round32_def)
  have r2: "round32 (13 / 8388608) = Fin (13 / 8388608)"
    using round_to_certificate [of "- 20" "13 / 8388608" "2 powi (- 43)" "- 126" 24 13631488 127]
    by (simp add: round32_def)
  have r3: "round32 (209862523 / 140737488355328) = Fin (1639551 / 1099511627776)"
    using round_to_certificate [of "- 20" "209862523 / 140737488355328" "2 powi (- 43)" "- 126" 24 13116408 127]
    by (simp add: round32_def)
  show ?thesis by (simp add: highpass_alpha_100_16000 fp_sub_def r1 r2 r3)
qed

text \<open>
  The bound on the magnitude of the constant is needed: for the constant \<open>2\<^sup>1\<^sup>2\<^sup>7\<close> the sum
  \<open>filtered[0] + c\<close> overflows and the second output sample is infinite.
\<close>

lemma highPassFilter_constant_overflow:
  "returned_floats (highPassFilter (env_of [] [Fin (2 ^ 127), Fin (2 ^ 127)] []) 0 (Fin 100) 16000) =
     Some [Fin (2 ^ 127), PInf]"
proof -
  have "round32 (2 powi 128) = PInf" unfolding round32_def by (rule round_to_overflow) simp_all
  then have o: "round32 (2 ^ 127 + 2 ^ 127) = PInf" by simp
  have "[0..<2] = [0, Suc 0]" by (simp add: upt_rec)
  then show ?thesis
    using highPassFilter_result [of 0 "env_of [] [Fin (2 ^ 127), Fin (2 ^ 127)] []" "Fin 100" 16000] o
    by (simp add: env_of_def no_failure_def highpass_alpha_100_16000 fp_sub_def inf_signed_def)
qed

text \<open>
  Nor does the output always decay towards zero. For 27 samples equal to 1, cutoff 2500 Hz
  and 16000 Hz, \<open>alpha\<close> is \<open>2116467 / 4194304\<close> (0.5046...), and from the sample 25 on the output
  stays at \<open>2116467 / 35184372088832\<close>: the sum \<open>filtered[25] + 1\<close> rounds to \<open>1 + 2\<^sup>-\<^sup>2\<^sup>3\<close>, and
  \<open>alpha * 2\<^sup>-\<^sup>2\<^sup>3\<close> rounds to \<open>filtered[25]\<close> again.
\<close>

lemma highpass_rc_2500: "highpass_rc (Fin 2500) = Fin (2187409 / 34359738368)"
proof -
  have a0: "round64 (884279719003555 / 140737488355328) = Fin (884279719003555 / 140737488355328)"
    using round_to_exact [of 884279719003555 53 "- 1022" "- 47" 1023] by (simp add: round64_def)
  have a1: "round64 (552674824377221875 / 35184372088832) = Fin (2158886032723523 / 137438953472)"
    using round_to_certificate [of 13 "552674824377221875 / 35184372088832" "2 powi (- 39)" "- 1022" 53 8635544130894092 1023]
    by (simp add: round64_def)
  have a2: "round64 (137438953472 / 2158886032723523) = Fin (2348712402625601 / 36893488147419103232)"
    using round_to_certificate [of "- 14" "137438953472 / 2158886032723523" "2 powi (- 66)" "- 1022" 53 4697424805251202 1023]
    by (simp add: round64_def)
  have a3: "round32 (2348712402625601 / 36893488147419103232) = Fin (2187409 / 34359738368)"
    using round_to_certificate [of "- 14" "2348712402625601 / 36893488147419103232" "2 powi (- 37)" "- 126" 24 8749636 127]
    by (simp add: round32_def)
  show ?thesis by (simp add: highpass_rc_def M_PI_value a0 a1 a2 a3)
qed

lemma highpass_alpha_2500_16000: "highpass_alpha (Fin 2500) 16000 = Fin (2116467 / 4194304)"
proof -
  have a4: "round32 (17339571 / 137438953472) = Fin (4334893 / 34359738368)"
    using round_to_certificate_tie [of "- 13" "17339571 / 137438953472" "2 powi (- 36)" "- 126" 24 8669785 8669786 127]
    by (simp add: round32_def)
  have a5: "round32 (2187409 / 4334893) = Fin (2116467 / 4194304)"
    using round_to_certificate [of "- 1" "2187409 / 4334893" "2 powi (- 24)" "- 126" 24 8465868 127]
    by (simp add: round32_def)
  show ?thesis by (simp add: highpass_alpha_def highpass_dt_16000 highpass_rc_2500 a4 a5)
qed

lemma highPassFilter_constant_no_decay:
  "\<exists>filtered.
     returned_floats (highPassFilter (env_of [] (replicate 27 (Fin 1)) []) 0 (Fin 2500) 16000) =
       Some filtered \<and>
     filtered ! 24 = Fin (2116467 / 17592186044416) \<and>
     filtered ! 25 = Fin (2116467 / 35184372088832) \<and>
     filtered ! 26 = Fin (2116467 / 35184372088832)"
proof -
  have e: "0 < length (float_arrays (env_of [] (replicate 27 (Fin 1)) []))"
    "no_failure (env_of [] (replicate 27 (Fin 1)) [])"
    "float_arrays (env_of [] (replicate 27 (Fin 1)) []) ! 0 = replicate 27 (Fin 1)"
    "(0::nat) < 27"
    by (simp_all add: env_of_def no_failure_def)
  note al = highpass_alpha_2500_16000
  from highPassFilter_constant_indexed [OF e, of "Fin 2500" 16000]
  obtain filtered where ret:
    "returned_floats (highPassFilter (env_of [] (replicate 27 (Fin 1)) []) 0 (Fin 2500) 16000) =
       Some filtered"
    and f0: "filtered ! 0 = Fin 1"
    and st: "\<forall>i. 1 \<le> i \<and> i < 27 \<longrightarrow>
         filtered ! i =
           fp_mul round32 (highpass_alpha (Fin 2500) 16000)
             (fp_sub round32 (fp_add round32 (filtered ! (i - 1)) (Fin 1)) (Fin 1))"
    by blast
  have r1a: "round32 (2) = Fin (2)"
    using round_to_certificate [of 1 "2" "2 powi (- 22)" "- 126" 24 8388608 127]
    by (simp add: round32_def)
  have r1b: "round32 (1) = Fin (1)"
    using round_to_certificate [of 0 "1" "2 powi (- 23)" "- 126" 24 8388608 127]
    by (simp add: round32_def)
  have r1c: "round32 (2116467 / 4194304) = Fin (2116467 / 4194304)"
    using round_to_certificate [of "- 1" "2116467 / 4194304" "2 powi (- 24)" "- 126" 24 8465868 127]
    by (simp add: round32_def)
  have s1: "fp_mul round32 (Fin (2116467 / 4194304))
      (fp_sub round32 (fp_add round32 (Fin (1)) (Fin 1)) (Fin 1)) = Fin (2116467 / 4194304)"
    by (simp add: fp_sub_def r1a r1b r1c)
  have f1: "filtered ! 1 = Fin (2116467 / 4194304)"
  proof -
    have "filtered ! 1 =
            fp_mul round32 (highpass_alpha (Fin 2500) 16000)
              (fp_sub round32 (fp_add round32 (filtered ! 0) (Fin 1)) (Fin 1))"
      using st [rule_format, of 1] by simp
    then show ?thesis unfolding f0 al s1 .
  qed
  have r2a: "round32 (6310771 / 4194304) = Fin (6310771 / 4194304)"
    using round_to_certificate [of 0 "6310771 / 4194304" "2 powi (- 23)" "- 126" 24 12621542 127]
    by (simp add: round32_def)
  have r2b: "round32 (2116467 / 4194304) = Fin (2116467 / 4194304)"
    using round_to_certificate [of "- 1" "2116467 / 4194304" "2 powi (- 24)" "- 126" 24 8465868 127]
    by (simp add: round32_def)
  have r2c: "round32 (4479432562089 / 17592186044416) = Fin (266995 / 1048576)"
    using round_to_certificate [of "- 2" "4479432562089 / 17592186044416" "2 powi (- 25)" "- 126" 24 8543840 127]
    by (simp add: round32_def)
  have s2: "fp_mul round32 (Fin (2116467 / 4194304))
      (fp_sub round32 (fp_add round32 (Fin (2116467 / 4194304)) (Fin 1)) (Fin 1)) = Fin (266995 / 1048576)"
    by (simp add: fp_sub_def r2a r2b r2c)
  have f2: "filtered ! 2 = Fin (266995 / 1048576)"
  proof -
    have "filtered ! 2 =
            fp_mul round32 (highpass_alpha (Fin 2500) 16000)
              (fp_sub round32 (fp_add round32 (filtered ! 1) (Fin 1)) (Fin 1))"
      using st [rule_format, of 2] by simp
    then show ?thesis unfolding f1 al s2 .
  qed
  have r3a: "round32 (1315571 / 1048576) = Fin (1315571 / 1048576)"
    using round_to_certificate [of 0 "1315571 / 1048576" "2 powi (- 23)" "- 126" 24 10524568 127]
    by (simp add: round32_def)
  have r3b: "round32 (266995 / 1048576) = Fin (266995 / 1048576)"
    using round_to_certificate [of "- 2" "266995 / 1048576" "2 powi (- 25)" "- 126" 24 8543840 127]
    by (simp add: round32_def)
  have r3c: "round32 (565086106665 / 4398046511104) = Fin (4311265 / 33554432)"
    using round_to_certificate [of "- 3" "565086106665 / 4398046511104" "2 powi (- 26)" "- 126" 24 8622530 127]
    by (simp add: round32_def)
  have s3: "fp_mul round32 (Fin (2116467 / 4194304))
      (fp_sub round32 (fp_add round32 (Fin (266995 / 1048576)) (Fin 1)) (Fin 1)) = Fin (4311265 / 33554432)"
    by (simp add: fp_sub_def r3a r3b r3c)
  have f3: "filtered ! 3 = Fin (4311265 / 33554432)"
  proof -
    have "filtered ! 3 =
            fp_mul round32 (highpass_alpha (Fin 2500) 16000)
              (fp_sub round32 (fp_add round32 (filtered ! 2) (Fin 1)) (Fin 1))"
      using st [rule_format, of 3] by simp
    then show ?thesis unfolding f2 al s3 .
  qed
  have r4a: "round32 (37865697 / 33554432) = Fin (1183303 / 1048576)"
    using round_to_certificate [of 0 "37865697 / 33554432" "2 powi (- 23)" "- 126" 24 9466424 127]
    by (simp add: round32_def)
  have r4b: "round32 (134727 / 1048576) = Fin (134727 / 1048576)"
    using round_to_certificate [of "- 3" "134727 / 1048576" "2 powi (- 26)" "- 126" 24 8622528 127]
    by (simp add: round32_def)
  have r4c: "round32 (285145249509 / 4398046511104) = Fin (4350971 / 67108864)"
    using round_to_certificate [of "- 4" "285145249509 / 4398046511104" "2 powi (- 27)" "- 126" 24 8701942 127]
    by (simp add: round32_def)
  have s4: "fp_mul round32 (Fin (2116467 / 4194304))
      (fp_sub round32 (fp_add round32 (Fin (4311265 / 33554432)) (Fin 1)) (Fin 1)) = Fin (4350971 / 67108864)"
    by (simp add: fp_sub_def r4a r4b r4c)
  have f4: "filtered ! 4 = Fin (4350971 / 67108864)"
  proof -
    have "filtered ! 4 =
            fp_mul round32 (highpass_alpha (Fin 2500) 16000)
              (fp_sub round32 (fp_add round32 (filtered ! 3) (Fin 1)) (Fin 1))"
      using st [rule_format, of 4] by simp
    then show ?thesis unfolding f3 al s4 .
  qed
  have r5a: "round32 (71459835 / 67108864) = Fin (8932479 / 8388608)"
    using round_to_certificate [of 0 "71459835 / 67108864" "2 powi (- 23)" "- 126" 24 8932479 127]
    by (simp add: round32_def)
  have r5b: "round32 (543871 / 8388608) = Fin (543871 / 8388608)"
    using round_to_certificate [of "- 4" "543871 / 8388608" "2 powi (- 27)" "- 126" 24 8701936 127]
    by (simp add: round32_def)
  have r5c: "round32 (1151085023757 / 35184372088832) = Fin (4391041 / 134217728)"
    using round_to_certificate [of "- 5" "1151085023757 / 35184372088832" "2 powi (- 28)" "- 126" 24 8782082 127]
    by (simp add: round32_def)
  have s5: "fp_mul round32 (Fin (2116467 / 4194304))
      (fp_sub round32 (fp_add round32 (Fin (4350971 / 67108864)) (Fin 1)) (Fin 1)) = Fin (4391041 / 134217728)"
    by (simp add: fp_sub_def r5a r5b r5c)
  have f5: "filtered ! 5 = Fin (4391041 / 134217728)"
  proof -
    have "filtered ! 5 =
            fp_mul round32 (highpass_alpha (Fin 2500) 16000)
              (fp_sub round32 (fp_add round32 (filtered ! 4) (Fin 1)) (Fin 1))"
      using st [rule_format, of 5] by simp
    then show ?thesis unfolding f4 al s5 .
  qed
  have r6a: "round32 (138608769 / 134217728) = Fin (1082881 / 1048576)"
    using round_to_certificate [of 0 "138608769 / 134217728" "2 powi (- 23)" "- 126" 24 8663048 127]
    by (simp add: round32_def)
  have r6b: "round32 (34305 / 1048576) = Fin (34305 / 1048576)"
    using round_to_certificate [of "- 5" "34305 / 1048576" "2 powi (- 28)" "- 126" 24 8782080 127]
    by (simp add: round32_def)
  have r6c: "round32 (72605400435 / 4398046511104) = Fin (2215741 / 134217728)"
    using round_to_certificate [of "- 6" "72605400435 / 4398046511104" "2 powi (- 29)" "- 126" 24 8862964 127]
    by (simp add: round32_def)
  have s6: "fp_mul round32 (Fin (2116467 / 4194304))
      (fp_sub round32 (fp_add round32 (Fin (4391041 / 134217728)) (Fin 1)) (Fin 1)) = Fin (2215741 / 134217728)"
    by (simp add: fp_sub_def r6a r6b r6c)
  have f6: "filtered ! 6 = Fin (2215741 / 134217728)"
  proof -
    have "filtered ! 6 =
            fp_mul round32 (highpass_alpha (Fin 2500) 16000)
              (fp_sub round32 (fp_add round32 (filtered ! 5) (Fin 1)) (Fin 1))"
      using st [rule_format, of 6] by simp
    then show ?thesis unfolding f5 al s6 .
  qed
  have r7a: "round32 (136433469 / 134217728) = Fin (2131773 / 2097152)"
    using round_to_certificate [of 0 "136433469 / 134217728" "2 powi (- 23)" "- 126" 24 8527092 127]
    by (simp add: round32_def)
  have r7b: "round32 (34621 / 2097152) = Fin (34621 / 2097152)"
    using round_to_certificate [of "- 6" "34621 / 2097152" "2 powi (- 29)" "- 126" 24 8862976 127]
    by (simp add: round32_def)
  have r7c: "round32 (73274204007 / 8796093022208) = Fin (8944605 / 1073741824)"
    using round_to_certificate [of "- 7" "73274204007 / 8796093022208" "2 powi (- 30)" "- 126" 24 8944605 127]
    by (simp add: round32_def)
  have s7: "fp_mul round32 (Fin (2116467 / 4194304))
      (fp_sub round32 (fp_add round32 (Fin (2215741 / 134217728)) (Fin 1)) (Fin 1)) = Fin (8944605 / 1073741824)"
    by (simp add: fp_sub_def r7a r7b r7c)
  have f7: "filtered ! 7 = Fin (8944605 / 1073741824)"
  proof -
    have "filtered ! 7 =
            fp_mul round32 (highpass_alpha (Fin 2500) 16000)
              (fp_sub round32 (fp_add round32 (filtered ! 6) (Fin 1)) (Fin 1))"
      using st [rule_format, of 7] by simp
    then show ?thesis unfolding f6 al s7 .
  qed
  have r8a: "round32 (1082686429 / 1073741824) = Fin (1057311 / 1048576)"
    using round_to_certificate [of 0 "1082686429 / 1073741824" "2 powi (- 23)" "- 126" 24 8458488 127]
    by (simp add: round32_def)
  have r8b: "round32 (8735 / 1048576) = Fin (8735 / 1048576)"
    using round_to_certificate [of "- 7" "8735 / 1048576" "2 powi (- 30)" "- 126" 24 8944640 127]
    by (simp add: round32_def)
  have r8c: "round32 (18487339245 / 4398046511104) = Fin (9027021 / 2147483648)"
    using round_to_certificate [of "- 8" "18487339245 / 4398046511104" "2 powi (- 31)" "- 126" 24 9027021 127]
    by (simp add: round32_def)
  have s8: "fp_mul round32 (Fin (2116467 / 4194304))
      (fp_sub round32 (fp_add round32 (Fin (8944605 / 1073741824)) (Fin 1)) (Fin 1)) = Fin (9027021 / 2147483648)"
    by (simp add: fp_sub_def r8a r8b r8c)
  have f8: "filtered ! 8 = Fin (9027021 / 2147483648)"
  proof -
    have "filtered ! 8 =
            fp_mul round32 (highpass_alpha (Fin 2500) 16000)
              (fp_sub round32 (fp_add round32 (filtered ! 7) (Fin 1)) (Fin 1))"
      using st [rule_format, of 8] by simp
    then show ?thesis unfolding f7 al s8 .
  qed
  have r9a: "round32 (2156510669 / 2147483648) = Fin (4211935 / 4194304)"
    using round_to_certificate [of 0 "2156510669 / 2147483648" "2 powi (- 23)" "- 126" 24 8423870 127]
    by (simp add: round32_def)
  have r9b: "round32 (17631 / 4194304) = Fin (17631 / 4194304)"
    using round_to_certificate [of "- 8" "17631 / 4194304" "2 powi (- 31)" "- 126" 24 9027072 127]
    by (simp add: round32_def)
  have r9c: "round32 (37315429677 / 17592186044416) = Fin (2277553 / 1073741824)"
    using round_to_certificate [of "- 9" "37315429677 / 17592186044416" "2 powi (- 32)" "- 126" 24 9110212 127]
    by (simp add: round32_def)
  have s9: "fp_mul round32 (Fin (2116467 / 4194304))
      (fp_sub round32 (fp_add round32 (Fin (9027021 / 2147483648)) (Fin 1)) (Fin 1)) = Fin (2277553 / 1073741824)"
    by (simp add: fp_sub_def r9a r9b r9c)
  have f9: "filtered ! 9 = Fin (2277553 / 1073741824)"
  proof -
    have "filtered ! 9 =
            fp_mul round32 (highpass_alpha (Fin 2500) 16000)
              (fp_sub round32 (fp_add round32 (filtered ! 8) (Fin 1)) (Fin 1))"
      using st [rule_format, of 9] by simp
    then show ?thesis unfolding f8 al s9 .
  qed
  have r10a: "round32 (1076019377 / 1073741824) = Fin (8406401 / 8388608)"
    using round_to_certificate [of 0 "1076019377 / 1073741824" "2 powi (- 23)" "- 126" 24 8406401 127]
    by (simp add: round32_def)
  have r10b: "round32 (17793 / 8388608) = Fin (17793 / 8388608)"
    using round_to_certificate [of "- 9" "17793 / 8388608" "2 powi (- 32)" "- 126" 24 9110016 127]
    by (simp add: round32_def)
  have r10c: "round32 (37658297331 / 35184372088832) = Fin (143655 / 134217728)"
    using round_to_certificate [of "- 10" "37658297331 / 35184372088832" "2 powi (- 33)" "- 126" 24 9193920 127]
    by (simp add: round32_def)
  have s10: "fp_mul round32 (Fin (2116467 / 4194304))
      (fp_sub round32 (fp_add round32 (Fin (2277553 / 1073741824)) (Fin 1)) (Fin 1)) = Fin (143655 / 134217728)"
    by (simp add: fp_sub_def r10a r10b r10c)
  have f10: "filtered ! 10 = Fin (143655 / 134217728)"
  proof -
    have "filtered ! 10 =
            fp_mul round32 (highpass_alpha (Fin 2500) 16000)
              (fp_sub round32 (fp_add round32 (filtered ! 9) (Fin 1)) (Fin 1))"
      using st [rule_format, of 10] by simp
    then show ?thesis unfolding f9 al s10 .
  qed
  have r11a: "round32 (134361383 / 134217728) = Fin (4198793 / 4194304)"
    using round_to_certificate [of 0 "134361383 / 134217728" "2 powi (- 23)" "- 126" 24 8397586 127]
    by (simp add: round32_def)
  have r11b: "round32 (4489 / 4194304) = Fin (4489 / 4194304)"
    using round_to_certificate [of "- 10" "4489 / 4194304" "2 powi (- 33)" "- 126" 24 9193472 127]
    by (simp add: round32_def)
  have r11c: "round32 (9500820363 / 17592186044416) = Fin (9278145 / 17179869184)"
    using round_to_certificate [of "- 11" "9500820363 / 17592186044416" "2 powi (- 34)" "- 126" 24 9278145 127]
    by (simp add: round32_def)
  have s11: "fp_mul round32 (Fin (2116467 / 4194304))
      (fp_sub round32 (fp_add round32 (Fin (143655 / 134217728)) (Fin 1)) (Fin 1)) = Fin (9278145 / 17179869184)"
    by (simp add: fp_sub_def r11a r11b r11c)
  have f11: "filtered ! 11 = Fin (9278145 / 17179869184)"
  proof -
    have "filtered ! 11 =
            fp_mul round32 (highpass_alpha (Fin 2500) 16000)
              (fp_sub round32 (fp_add round32 (filtered ! 10) (Fin 1)) (Fin 1))"
      using st [rule_format, of 11] by simp
    then show ?thesis unfolding f10 al s11 .
  qed
  have r12a: "round32 (17189147329 / 17179869184) = Fin (4196569 / 4194304)"
    using round_to_certificate [of 0 "17189147329 / 17179869184" "2 powi (- 23)" "- 126" 24 8393138 127]
    by (simp add: round32_def)
  have r12b: "round32 (2265 / 4194304) = Fin (2265 / 4194304)"
    using round_to_certificate [of "- 11" "2265 / 4194304" "2 powi (- 34)" "- 126" 24 9277440 127]
    by (simp add: round32_def)
  have r12c: "round32 (4793797755 / 17592186044416) = Fin (4681443 / 17179869184)"
    using round_to_certificate [of "- 12" "4793797755 / 17592186044416" "2 powi (- 35)" "- 126" 24 9362886 127]
    by (simp add: round32_def)
  have s12: "fp_mul round32 (Fin (2116467 / 4194304))
      (fp_sub round32 (fp_add round32 (Fin (9278145 / 17179869184)) (Fin 1)) (Fin 1)) = Fin (4681443 / 17179869184)"
    by (simp add: fp_sub_def r12a r12b r12c)
  have f12: "filtered ! 12 = Fin (4681443 / 17179869184)"
  proof -
    have "filtered ! 12 =
            fp_mul round32 (highpass_alpha (Fin 2500) 16000)
              (fp_sub round32 (fp_add round32 (filtered ! 11) (Fin 1)) (Fin 1))"
      using st [rule_format, of 12] by simp
    then show ?thesis unfolding f11 al s12 .
  qed
  have r13a: "round32 (17184550627 / 17179869184) = Fin (4195447 / 4194304)"
    using round_to_certificate [of 0 "17184550627 / 17179869184" "2 powi (- 23)" "- 126" 24 8390894 127]
    by (simp add: round32_def)
  have r13b: "round32 (1143 / 4194304) = Fin (1143 / 4194304)"
    using round_to_certificate [of "- 12" "1143 / 4194304" "2 powi (- 35)" "- 126" 24 9363456 127]
    by (simp add: round32_def)
  have r13c: "round32 (2419121781 / 17592186044416) = Fin (4724847 / 34359738368)"
    using round_to_certificate [of "- 13" "2419121781 / 17592186044416" "2 powi (- 36)" "- 126" 24 9449694 127]
    by (simp add: round32_def)
  have s13: "fp_mul round32 (Fin (2116467 / 4194304))
      (fp_sub round32 (fp_add round32 (Fin (4681443 / 17179869184)) (Fin 1)) (Fin 1)) = Fin (4724847 / 34359738368)"
    by (simp add: fp_sub_def r13a r13b r13c)
  have f13: "filtered ! 13 = Fin (4724847 / 34359738368)"
  proof -
    have "filtered ! 13 =
            fp_mul round32 (highpass_alpha (Fin 2500) 16000)
              (fp_sub round32 (fp_add round32 (filtered ! 12) (Fin 1)) (Fin 1))"
      using st [rule_format, of 13] by simp
    then show ?thesis unfolding f12 al s13 .
  qed
  have r14a: "round32 (34364463215 / 34359738368) = Fin (4194881 / 4194304)"
    using round_to_certificate [of 0 "34364463215 / 34359738368" "2 powi (- 23)" "- 126" 24 8389762 127]
    by (simp add: round32_def)
  have r14b: "round32 (577 / 4194304) = Fin (577 / 4194304)"
    using round_to_certificate [of "- 13" "577 / 4194304" "2 powi (- 36)" "- 126" 24 9453568 127]
    by (simp add: round32_def)
  have r14c: "round32 (1221201459 / 17592186044416) = Fin (2385159 / 34359738368)"
    using round_to_certificate [of "- 14" "1221201459 / 17592186044416" "2 powi (- 37)" "- 126" 24 9540636 127]
    by (simp add: round32_def)
  have s14: "fp_mul round32 (Fin (2116467 / 4194304))
      (fp_sub round32 (fp_add round32 (Fin (4724847 / 34359738368)) (Fin 1)) (Fin 1)) = Fin (2385159 / 34359738368)"
    by (simp add: fp_sub_def r14a r14b r14c)
  have f14: "filtered ! 14 = Fin (2385159 / 34359738368)"
  proof -
    have "filtered ! 14 =
            fp_mul round32 (highpass_alpha (Fin 2500) 16000)
              (fp_sub round32 (fp_add round32 (filtered ! 13) (Fin 1)) (Fin 1))"
      using st [rule_format, of 14] by simp
    then show ?thesis unfolding f13 al s14 .
  qed
  have r15a: "round32 (34362123527 / 34359738368) = Fin (4194595 / 4194304)"
    using round_to_certificate [of 0 "34362123527 / 34359738368" "2 powi (- 23)" "- 126" 24 8389190 127]
    by (simp add: round32_def)
  have r15b: "round32 (291 / 4194304) = Fin (291 / 4194304)"
    using round_to_certificate [of "- 14" "291 / 4194304" "2 powi (- 37)" "- 126" 24 9535488 127]
    by (simp add: round32_def)
  have r15c: "round32 (615891897 / 17592186044416) = Fin (9623311 / 274877906944)"
    using round_to_certificate [of "- 15" "615891897 / 17592186044416" "2 powi (- 38)" "- 126" 24 9623311 127]
    by (simp add: round32_def)
  have s15: "fp_mul round32 (Fin (2116467 / 4194304))
      (fp_sub round32 (fp_add round32 (Fin (2385159 / 34359738368)) (Fin 1)) (Fin 1)) = Fin (9623311 / 274877906944)"
    by (simp add: fp_sub_def r15a r15b r15c)
  have f15: "filtered ! 15 = Fin (9623311 / 274877906944)"
  proof -
    have "filtered ! 15 =
            fp_mul round32 (highpass_alpha (Fin 2500) 16000)
              (fp_sub round32 (fp_add round32 (filtered ! 14) (Fin 1)) (Fin 1))"
      using st [rule_format, of 15] by simp
    then show ?thesis unfolding f14 al s15 .
  qed
  have r16a: "round32 (274887530255 / 274877906944) = Fin (4194451 / 4194304)"
    using round_to_certificate [of 0 "274887530255 / 274877906944" "2 powi (- 23)" "- 126" 24 8388902 127]
    by (simp add: round32_def)
  have r16b: "round32 (147 / 4194304) = Fin (147 / 4194304)"
    using round_to_certificate [of "- 15" "147 / 4194304" "2 powi (- 38)" "- 126" 24 9633792 127]
    by (simp add: round32_def)
  have r16c: "round32 (311120649 / 17592186044416) = Fin (1215315 / 68719476736)"
    using round_to_certificate [of "- 16" "311120649 / 17592186044416" "2 powi (- 39)" "- 126" 24 9722520 127]
    by (simp add: round32_def)
  have s16: "fp_mul round32 (Fin (2116467 / 4194304))
      (fp_sub round32 (fp_add round32 (Fin (9623311 / 274877906944)) (Fin 1)) (Fin 1)) = Fin (1215315 / 68719476736)"
    by (simp add: fp_sub_def r16a r16b r16c)
  have f16: "filtered ! 16 = Fin (1215315 / 68719476736)"
  proof -
    have "filtered ! 16 =
            fp_mul round32 (highpass_alpha (Fin 2500) 16000)
              (fp_sub round32 (fp_add round32 (filtered ! 15) (Fin 1)) (Fin 1))"
      using st [rule_format, of 16] by simp
    then show ?thesis unfolding f15 al s16 .
  qed
  have r17a: "round32 (68720692051 / 68719476736) = Fin (2097189 / 2097152)"
    using round_to_certificate [of 0 "68720692051 / 68719476736" "2 powi (- 23)" "- 126" 24 8388756 127]
    by (simp add: round32_def)
  have r17b: "round32 (37 / 2097152) = Fin (37 / 2097152)"
    using round_to_certificate [of "- 16" "37 / 2097152" "2 powi (- 39)" "- 126" 24 9699328 127]
    by (simp add: round32_def)
  have r17c: "round32 (78309279 / 8796093022208) = Fin (2447165 / 274877906944)"
    using round_to_certificate [of "- 17" "78309279 / 8796093022208" "2 powi (- 40)" "- 126" 24 9788660 127]
    by (simp add: round32_def)
  have s17: "fp_mul round32 (Fin (2116467 / 4194304))
      (fp_sub round32 (fp_add round32 (Fin (1215315 / 68719476736)) (Fin 1)) (Fin 1)) = Fin (2447165 / 274877906944)"
    by (simp add: fp_sub_def r17a r17b r17c)
  have f17: "filtered ! 17 = Fin (2447165 / 274877906944)"
  proof -
    have "filtered ! 17 =
            fp_mul round32 (highpass_alpha (Fin 2500) 16000)
              (fp_sub round32 (fp_add round32 (filtered ! 16) (Fin 1)) (Fin 1))"
      using st [rule_format, of 17] by simp
    then show ?thesis unfolding f16 al s17 .
  qed
  have r18a: "round32 (274880354109 / 274877906944) = Fin (8388683 / 8388608)"
    using round_to_certificate [of 0 "274880354109 / 274877906944" "2 powi (- 23)" "- 126" 24 8388683 127]
    by (simp add: round32_def)
  have r18b: "round32 (75 / 8388608) = Fin (75 / 8388608)"
    using round_to_certificate [of "- 17" "75 / 8388608" "2 powi (- 40)" "- 126" 24 9830400 127]
    by (simp add: round32_def)
  have r18c: "round32 (158735025 / 35184372088832) = Fin (9920939 / 2199023255552)"
    using round_to_certificate [of "- 18" "158735025 / 35184372088832" "2 powi (- 41)" "- 126" 24 9920939 127]
    by (simp add: round32_def)
  have s18: "fp_mul round32 (Fin (2116467 / 4194304))
      (fp_sub round32 (fp_add round32 (Fin (2447165 / 274877906944)) (Fin 1)) (Fin 1)) = Fin (9920939 / 2199023255552)"
    by (simp add: fp_sub_def r18a r18b r18c)
  have f18: "filtered ! 18 = Fin (9920939 / 2199023255552)"
  proof -
    have "filtered ! 18 =
            fp_mul round32 (highpass_alpha (Fin 2500) 16000)
              (fp_sub round32 (fp_add round32 (filtered ! 17) (Fin 1)) (Fin 1))"
      using st [rule_format, of 18] by simp
    then show ?thesis unfolding f17 al s18 .
  qed
  have r19a: "round32 (2199033176491 / 2199023255552) = Fin (4194323 / 4194304)"
    using round_to_certificate [of 0 "2199033176491 / 2199023255552" "2 powi (- 23)" "- 126" 24 8388646 127]
    by (simp add: round32_def)
  have r19b: "round32 (19 / 4194304) = Fin (19 / 4194304)"
    using round_to_certificate [of "- 18" "19 / 4194304" "2 powi (- 41)" "- 126" 24 9961472 127]
    by (simp add: round32_def)
  have r19c: "round32 (40212873 / 17592186044416) = Fin (5026609 / 2199023255552)"
    using round_to_certificate [of "- 19" "40212873 / 17592186044416" "2 powi (- 42)" "- 126" 24 10053218 127]
    by (simp add: round32_def)
  have s19: "fp_mul round32 (Fin (2116467 / 4194304))
      (fp_sub round32 (fp_add round32 (Fin (9920939 / 2199023255552)) (Fin 1)) (Fin 1)) = Fin (5026609 / 2199023255552)"
    by (simp add: fp_sub_def r19a r19b r19c)
  have f19: "filtered ! 19 = Fin (5026609 / 2199023255552)"
  proof -
    have "filtered ! 19 =
            fp_mul round32 (highpass_alpha (Fin 2500) 16000)
              (fp_sub round32 (fp_add round32 (filtered ! 18) (Fin 1)) (Fin 1))"
      using st [rule_format, of 19] by simp
    then show ?thesis unfolding f18 al s19 .
  qed
  have r20a: "round32 (2199028282161 / 2199023255552) = Fin (8388627 / 8388608)"
    using round_to_certificate [of 0 "2199028282161 / 2199023255552" "2 powi (- 23)" "- 126" 24 8388627 127]
    by (simp add: round32_def)
  have r20b: "round32 (19 / 8388608) = Fin (19 / 8388608)"
    using round_to_certificate [of "- 19" "19 / 8388608" "2 powi (- 42)" "- 126" 24 9961472 127]
    by (simp add: round32_def)
  have r20c: "round32 (40212873 / 35184372088832) = Fin (5026609 / 4398046511104)"
    using round_to_certificate [of "- 20" "40212873 / 35184372088832" "2 powi (- 43)" "- 126" 24 10053218 127]
    by (simp add: round32_def)
  have s20: "fp_mul round32 (Fin (2116467 / 4194304))
      (fp_sub round32 (fp_add round32 (Fin (5026609 / 2199023255552)) (Fin 1)) (Fin 1)) = Fin (5026609 / 4398046511104)"
    by (simp add: fp_sub_def r20a r20b r20c)
  have f20: "filtered ! 20 = Fin (5026609 / 4398046511104)"
  proof -
    have "filtered ! 20 =
            fp_mul round32 (highpass_alpha (Fin 2500) 16000)
              (fp_sub round32 (fp_add round32 (filtered ! 19) (Fin 1)) (Fin 1))"
      using st [rule_format, of 20] by simp
    then show ?thesis unfolding f19 al s20 .
  qed
  have r21a: "round32 (4398051537713 / 4398046511104) = Fin (4194309 / 4194304)"
    using round_to_certificate [of 0 "4398051537713 / 4398046511104" "2 powi (- 23)" "- 126" 24 8388618 127]
    by (simp add: round32_def)
  have r21b: "round32 (5 / 4194304) = Fin (5 / 4194304)"
    using round_to_certificate [of "- 20" "5 / 4194304" "2 powi (- 43)" "- 126" 24 10485760 127]
    by (simp add: round32_def)
  have r21c: "round32 (10582335 / 17592186044416) = Fin (10582335 / 17592186044416)"
    using round_to_certificate [of "- 21" "10582335 / 17592186044416" "2 powi (- 44)" "- 126" 24 10582335 127]
    by (simp add: round32_def)
  have s21: "fp_mul round32 (Fin (2116467 / 4194304))
      (fp_sub round32 (fp_add round32 (Fin (5026609 / 4398046511104)) (Fin 1)) (Fin 1)) = Fin (10582335 / 17592186044416)"
    by (simp add: fp_sub_def r21a r21b r21c)
  have f21: "filtered ! 21 = Fin (10582335 / 17592186044416)"
  proof -
    have "filtered ! 21 =
            fp_mul round32 (highpass_alpha (Fin 2500) 16000)
              (fp_sub round32 (fp_add round32 (filtered ! 20) (Fin 1)) (Fin 1))"
      using st [rule_format, of 21] by simp
    then show ?thesis unfolding f20 al s21 .
  qed
  have r22a: "round32 (17592196626751 / 17592186044416) = Fin (8388613 / 8388608)"
    using round_to_certificate [of 0 "17592196626751 / 17592186044416" "2 powi (- 23)" "- 126" 24 8388613 127]
    by (simp add: round32_def)
  have r22b: "round32 (5 / 8388608) = Fin (5 / 8388608)"
    using round_to_certificate [of "- 21" "5 / 8388608" "2 powi (- 44)" "- 126" 24 10485760 127]
    by (simp add: round32_def)
  have r22c: "round32 (10582335 / 35184372088832) = Fin (10582335 / 35184372088832)"
    using round_to_certificate [of "- 22" "10582335 / 35184372088832" "2 powi (- 45)" "- 126" 24 10582335 127]
    by (simp add: round32_def)
  have s22: "fp_mul round32 (Fin (2116467 / 4194304))
      (fp_sub round32 (fp_add round32 (Fin (10582335 / 17592186044416)) (Fin 1)) (Fin 1)) = Fin (10582335 / 35184372088832)"
    by (simp add: fp_sub_def r22a r22b r22c)
  have f22: "filtered ! 22 = Fin (10582335 / 35184372088832)"
  proof -
    have "filtered ! 22 =
            fp_mul round32 (highpass_alpha (Fin 2500) 16000)
              (fp_sub round32 (fp_add round32 (filtered ! 21) (Fin 1)) (Fin 1))"
      using st [rule_format, of 22] by simp
    then show ?thesis unfolding f21 al s22 .
  qed
  have r23a: "round32 (35184382671167 / 35184372088832) = Fin (8388611 / 8388608)"
    using round_to_certificate [of 0 "35184382671167 / 35184372088832" "2 powi (- 23)" "- 126" 24 8388611 127]
    by (simp add: round32_def)
  have r23b: "round32 (3 / 8388608) = Fin (3 / 8388608)"
    using round_to_certificate [of "- 22" "3 / 8388608" "2 powi (- 45)" "- 126" 24 12582912 127]
    by (simp add: round32_def)
  have r23c: "round32 (6349401 / 35184372088832) = Fin (6349401 / 35184372088832)"
    using round_to_certificate [of "- 23" "6349401 / 35184372088832" "2 powi (- 46)" "- 126" 24 12698802 127]
    by (simp add: round32_def)
  have s23: "fp_mul round32 (Fin (2116467 / 4194304))
      (fp_sub round32 (fp_add round32 (Fin (10582335 / 35184372088832)) (Fin 1)) (Fin 1)) = Fin (6349401 / 35184372088832)"
    by (simp add: fp_sub_def r23a r23b r23c)
  have f23: "filtered ! 23 = Fin (6349401 / 35184372088832)"
  proof -
    have "filtered ! 23 =
            fp_mul round32 (highpass_alpha (Fin 2500) 16000)
              (fp_sub round32 (fp_add round32 (filtered ! 22) (Fin 1)) (Fin 1))"
      using st [rule_format, of 23] by simp
    then show ?thesis unfolding f22 al s23 .
  qed
  have r24a: "round32 (35184378438233 / 35184372088832) = Fin (4194305 / 4194304)"
    using round_to_certificate [of 0 "35184378438233 / 35184372088832" "2 powi (- 23)" "- 126" 24 8388610 127]
    by (simp add: round32_def)
  have r24b: "round32 (1 / 4194304) = Fin (1 / 4194304)"
    using round_to_certificate [of "- 22" "1 / 4194304" "2 powi (- 45)" "- 126" 24 8388608 127]
    by (simp add: round32_def)
  have r24c: "round32 (2116467 / 17592186044416) = Fin (2116467 / 17592186044416)"
    using round_to_certificate [of "- 23" "2116467 / 17592186044416" "2 powi (- 46)" "- 126" 24 8465868 127]
    by (simp add: round32_def)
  have s24: "fp_mul round32 (Fin (2116467 / 4194304))
      (fp_sub round32 (fp_add round32 (Fin (6349401 / 35184372088832)) (Fin 1)) (Fin 1)) = Fin (2116467 / 17592186044416)"
    by (simp add: fp_sub_def r24a r24b r24c)
  have f24: "filtered ! 24 = Fin (2116467 / 17592186044416)"
  proof -
    have "filtered ! 24 =
            fp_mul round32 (highpass_alpha (Fin 2500) 16000)
              (fp_sub round32 (fp_add round32 (filtered ! 23) (Fin 1)) (Fin 1))"
      using st [rule_format, of 24] by simp
    then show ?thesis unfolding f23 al s24 .
  qed
  have r25a: "round32 (17592188160883 / 17592186044416) = Fin (8388609 / 8388608)"
    using round_to_certificate [of 0 "17592188160883 / 17592186044416" "2 powi (- 23)" "- 126" 24 8388609 127]
    by (simp add: round32_def)
  have r25b: "round32 (1 / 8388608) = Fin (1 / 8388608)"
    using round_to_certificate [of "- 23" "1 / 8388608" "2 powi (- 46)" "- 126" 24 8388608 127]
    by (simp add: round32_def)
  have r25c: "round32 (2116467 / 35184372088832) = Fin (2116467 / 35184372088832)"
    using round_to_certificate [of "- 24" "2116467 / 35184372088832" "2 powi (- 47)" "- 126" 24 8465868 127]
    by (simp add: round32_def)
  have s25: "fp_mul round32 (Fin (2116467 / 4194304))
      (fp_sub round32 (fp_add round32 (Fin (2116467 / 17592186044416)) (Fin 1)) (Fin 1)) = Fin (2116467 / 35184372088832)"
    by (simp add: fp_sub_def r25a r25b r25c)
  have f25: "filtered ! 25 = Fin (2116467 / 35184372088832)"
  proof -
    have "filtered ! 25 =
            fp_mul round32 (highpass_alpha (Fin 2500) 16000)
              (fp_sub round32 (fp_add round32 (filtered ! 24) (Fin 1)) (Fin 1))"
      using st [rule_format, of 25] by simp
    then show ?thesis unfolding f24 al s25 .
  qed
  have r26a: "round32 (35184374205299 / 35184372088832) = Fin (8388609 / 8388608)"
    using round_to_certificate [of 0 "35184374205299 / 35184372088832" "2 powi (- 23)" "- 126" 24 8388609 127]
    by (simp add: round32_def)
  have r26b: "round32 (1 / 8388608) = Fin (1 / 8388608)"
    using round_to_certificate [of "- 23" "1 / 8388608" "2 powi (- 46)" "- 126" 24 8388608 127]
    by (simp add: round32_def)
  have r26c: "round32 (2116467 / 35184372088832) = Fin (2116467 / 35184372088832)"
    using round_to_certificate [of "- 24" "2116467 / 35184372088832" "2 powi (- 47)" "- 126" 24 8465868 127]
    by (simp add: round32_def)
  have s26: "fp_mul round32 (Fin (2116467 / 4194304))
      (fp_sub round32 (fp_add round32 (Fin (2116467 / 35184372088832)) (Fin 1)) (Fin 1)) = Fin (2116467 / 35184372088832)"
    by (simp add: fp_sub_def r26a r26b r26c)
  have f26: "filtered ! 26 = Fin (2116467 / 35184372088832)"
  proof -
    have "filtered ! 26 =
            fp_mul round32 (highpass_alpha (Fin 2500) 16000)
              (fp_sub round32 (fp_add round32 (filtered ! 25) (Fin 1)) (Fin 1))"
      using st [rule_format, of 26] by simp
    then show ?thesis unfolding f25 al s26 .
  qed
  from ret f24 f25 f26 show ?thesis by blast
qed

subsection \<open>calculateRMS\<close>

declare sum_squares_loop.simps [simp del]

lemma sum_squares_loop_foldl:
  assumes "len \<le> length audio"
  shows "sum_squares_loop audio len i sum_squares =
           foldl (\<lambda>s x. fp_add round64 s (fp_mul round32 x x)) sum_squares
             (drop i (take len audio))"
  using assms
proof (induction audio len i sum_squares rule: sum_squares_loop.induct)
  case (1 audio len i sum_squares)
  show ?case
  proof (cases "i < len")
    case True
    then have "drop i (take len audio) = audio ! i # drop (Suc i) (take len audio)"
      using "1.prems" by (simp add: Cons_nth_drop_Suc [symmetric])
    then show ?thesis using True 1 by (subst sum_squares_loop.simps) simp
  next
    case False
    then show ?thesis by (subst sum_squares_loop.simps) simp
  qed
qed

lemma calculateRMS_result:
  assumes "audio_data < length (float_arrays env)" and "no_failure env"
  shows "fst (calculateRMS env audio_data) =
           Inr (double_to_float
                  (fp_sqrt round64
                     (fp_div round64 (sum_of_squares (float_arrays env ! audio_data))
                        (int_to_double (int (length (float_arrays env ! audio_data)))))))"
  using assms
  by (simp add: calculateRMS_def jni_defs next_call_succeeds not_in_tl no_failure_def
       Let_def sum_squares_loop_foldl sum_of_squares_def)

lemma sum_of_squares_zero:
  assumes "\<forall>x\<in>set audio. x = Fin 0"
  shows "sum_of_squares audio = Fin 0"
proof -
  have "foldl (\<lambda>s x. fp_add round64 s (fp_mul round32 x x)) (Fin 0) audio = Fin 0"
    using assms by (induction audio) simp_all
  then show ?thesis by (simp add: sum_of_squares_def)
qed

lemma fp_mul_neg_neg: "fp_mul rnd (fp_neg x) (fp_neg x) = fp_mul rnd x x"
  by (cases x) (simp_all add: inf_signed_def)

lemma sum_of_squares_neg: "sum_of_squares (map fp_neg audio) = sum_of_squares audio"
  by (simp add: sum_of_squares_def foldl_map fp_mul_neg_neg)

lemma rms_of_zero:
  assumes "0 < n"
  shows "double_to_float (fp_sqrt round64 (fp_div round64 (Fin 0) (int_to_double (int n)))) = Fin 0"
proof -
  have "1 \<le> real_of_int (int n)" using assms by simp
  then have "round64 (of_int (int n)) = PInf \<or> (\<exists>y. round64 (of_int (int n)) = Fin y \<and> 1 \<le> y)"
    unfolding round64_def by (intro round_to_ge_one) auto
  then have "fp_div round64 (Fin 0) (int_to_double (int n)) = Fin 0"
    by (auto simp: int_to_double_def)
  then show ?thesis by simp
qed

text \<open>
  C5, as the source has it. For a non-empty buffer \<^verbatim>\<open>calculateRMS\<close> returns
  \<open>sqrt (sum_squares / N)\<close>, where \<open>sum_squares\<close> is the sum, accumulated in \<^verbatim>\<open>double\<close>, of the
  products \<open>input[i] * input[i]\<close>, each of them computed in \<^verbatim>\<open>float\<close> (rounded to single
  precision, infinite beyond the \<^verbatim>\<open>float\<close> range and zero below it) before it is added; the
  quotient and the square root are \<^verbatim>\<open>double\<close> and the result is narrowed to \<^verbatim>\<open>float\<close>. The RMS
  of an all-zero buffer is 0, and negating every sample does not change the RMS.
\<close>

theorem calculateRMS_root_mean_square:
  assumes "audio_data < length (float_arrays env)" and "no_failure env"
    and "float_arrays env ! audio_data = audio" and "audio \<noteq> []"
  shows "fst (calculateRMS env audio_data) =
           Inr (double_to_float
                  (fp_sqrt round64
                     (fp_div round64
                        (foldl (\<lambda>sum_squares x. fp_add round64 sum_squares (fp_mul round32 x x))
                           (Fin 0) audio)
                        (int_to_double (int (length audio)))))) \<and>
         ((\<forall>x\<in>set audio. x = Fin 0) \<longrightarrow> fst (calculateRMS env audio_data) = Inr (Fin 0)) \<and>
         (\<forall>env' negated.
            negated < length (float_arrays env') \<and> no_failure env' \<and>
            float_arrays env' ! negated = map fp_neg audio \<longrightarrow>
            fst (calculateRMS env' negated) = fst (calculateRMS env audio_data))"
proof (intro conjI allI impI)
  show "fst (calculateRMS env audio_data) =
           Inr (double_to_float
                  (fp_sqrt round64
                     (fp_div round64
                        (foldl (\<lambda>sum_squares x. fp_add round64 sum_squares (fp_mul round32 x x))
                           (Fin 0) audio)
                        (int_to_double (int (length audio))))))"
    using calculateRMS_result [OF assms(1,2)] assms(3) by (simp add: sum_of_squares_def)
next
  assume "\<forall>x\<in>set audio. x = Fin 0"
  then show "fst (calculateRMS env audio_data) = Inr (Fin 0)"
    using calculateRMS_result [OF assms(1,2)] assms(3,4)
    by (simp add: sum_of_squares_zero rms_of_zero)
next
  fix env' negated
  assume "negated < length (float_arrays env') \<and> no_failure env' \<and>
            float_arrays env' ! negated = map fp_neg audio"
  then show "fst (calculateRMS env' negated) = fst (calculateRMS env audio_data)"
    using calculateRMS_result [OF assms(1,2)] calculateRMS_result [of negated env'] assms(3)
    by (simp add: sum_of_squares_neg)
qed

text \<open>The RMS of 1, -1, 1, -1 is 1.\<close>

theorem calculateRMS_root_mean_square_witness:
  "0 < length (float_arrays (env_of [] [Fin 1, Fin (- 1), Fin 1, Fin (- 1)] [])) \<and>
   no_failure (env_of [] [Fin 1, Fin (- 1), Fin 1, Fin (- 1)] []) \<and>
   [Fin 1, Fin (- 1), Fin 1, Fin (- 1)] \<noteq> [] \<and>
   fst (calculateRMS (env_of [] [Fin 1, Fin (- 1), Fin 1, Fin (- 1)] []) 0) = Inr (Fin 1) \<and>
   fst (calculateRMS (env_of [] [Fin 0, Fin 0, Fin 0] []) 0) = Inr (Fin 0) \<and>
   fst (calculateRMS (env_of [] (map fp_neg [Fin 1, Fin (- 1), Fin 1, Fin (- 1)]) []) 0) =
     fst (calculateRMS (env_of [] [Fin 1, Fin (- 1), Fin 1, Fin (- 1)] []) 0)"
proof -
  have r32: "round32 1 = Fin 1" using round32_int [of 1] by simp
  have r64: "round64 1 = Fin 1" "round64 2 = Fin 2" "round64 3 = Fin 3" "round64 4 = Fin 4"
    using round64_int [of 1] round64_int [of 2] round64_int [of 3] round64_int [of 4] by simp_all
  have e: "0 < length (float_arrays (env_of [] audio []))" "no_failure (env_of [] audio [])"
    "float_arrays (env_of [] audio []) ! 0 = audio" for audio
    by (simp_all add: env_of_def no_failure_def)
  note t = calculateRMS_root_mean_square [OF e]
  have "fst (calculateRMS (env_of [] [Fin 1, Fin (- 1), Fin 1, Fin (- 1)] []) 0) = Inr (Fin 1)"
    using t [of "[Fin 1, Fin (- 1), Fin 1, Fin (- 1)]", THEN conjunct1]
    by (simp add: r32 r64 int_to_double_def)
  moreover have "fst (calculateRMS (env_of [] [Fin 0, Fin 0, Fin 0] []) 0) = Inr (Fin 0)"
    using t [of "[Fin 0, Fin 0, Fin 0]", THEN conjunct2, THEN conjunct1] by simp
  moreover have "fst (calculateRMS (env_of [] (map fp_neg [Fin 1, Fin (- 1), Fin 1, Fin (- 1)]) []) 0) =
     fst (calculateRMS (env_of [] [Fin 1, Fin (- 1), Fin 1, Fin (- 1)] []) 0)"
    using t [of "[Fin 1, Fin (- 1), Fin 1, Fin (- 1)]", THEN conjunct2, THEN conjunct2,
        rule_format, of 0 "env_of [] (map fp_neg [Fin 1, Fin (- 1), Fin 1, Fin (- 1)]) []"] e
    by simp
  ultimately show ?thesis using e by simp
qed

text \<open>
  The claim as stated, with the squares themselves in double precision, fails where a
  \<^verbatim>\<open>float\<close> square is not the square: the sample \<open>2\<^sup>6\<^sup>4\<close> has the RMS \<open>2\<^sup>6\<^sup>4\<close>, and
  \<^verbatim>\<open>calculateRMS\<close> returns infinity, because the \<^verbatim>\<open>float\<close> product \<open>2\<^sup>6\<^sup>4 * 2\<^sup>6\<^sup>4\<close> overflows;
  the sample \<open>2\<^sup>-\<^sup>8\<^sup>0\<close> has the RMS \<open>2\<^sup>-\<^sup>8\<^sup>0\<close>, and \<^verbatim>\<open>calculateRMS\<close> returns 0, because the
  \<^verbatim>\<open>float\<close> product underflows. Both samples are \<^verbatim>\<open>float\<close>s.
\<close>

theorem calculateRMS_float_squares_counterexample:
  "round32 (2 ^ 64) = Fin (2 ^ 64) \<and>
   fst (calculateRMS (env_of [] [Fin (2 ^ 64)] []) 0) = Inr PInf \<and>
   specified_rms [Fin (2 ^ 64)] = Fin (2 ^ 64) \<and>
   round32 (1 / 2 ^ 80) = Fin (1 / 2 ^ 80) \<and>
   fst (calculateRMS (env_of [] [Fin (1 / 2 ^ 80)] []) 0) = Inr (Fin 0) \<and>
   specified_rms [Fin (1 / 2 ^ 80)] = Fin (1 / 2 ^ 80)"
proof -
  have e: "0 < length (float_arrays (env_of [] audio []))" "no_failure (env_of [] audio [])"
    "float_arrays (env_of [] audio []) ! 0 = audio" for audio
    by (simp_all add: env_of_def no_failure_def)
  have one: "int_to_double 1 = Fin 1" using round64_int [of 1] by (simp add: int_to_double_def)
  have big32: "round32 (2 powi 64) = Fin (2 powi 64)" by (rule round32_power2) simp_all
  have big64: "round64 (2 powi 64) = Fin (2 powi 64)" "round64 (2 powi 128) = Fin (2 powi 128)"
    by (rule round64_power2; simp)+
  have over: "round32 (2 powi 128) = PInf"
    unfolding round32_def by (rule round_to_overflow) simp_all
  have small32: "round32 (2 powi (- 80)) = Fin (2 powi (- 80))" by (rule round32_power2) simp_all
  have small64: "round64 (2 powi (- 80)) = Fin (2 powi (- 80))"
    "round64 (2 powi (- 160)) = Fin (2 powi (- 160))"
    by (rule round64_power2; simp)+
  have under: "round32 (2 powi (- 160)) = Fin 0"
    using round_to_certificate [of "- 160" "2 powi (- 160)" "2 powi (- 149)" "- 126" 24 0 127]
    by (simp add: round32_def)
  have "sqrt (2 powi (k + k)) = 2 powi k" for k
  proof (rule real_sqrt_unique)
    have "(2::real) powi (k + k) = 2 powi k * 2 powi k" by (rule power_int_add) simp
    then show "(2 powi k)\<^sup>2 = (2::real) powi (k + k)"
      by (simp only: power2_eq_square)
  qed simp
  from this [of 64] this [of "- 80"]
  have sq: "sqrt (2 powi 128) = 2 powi 64" "sqrt (2 powi (- 160)) = 2 powi (- 80)"
    by simp_all
  have c1: "fst (calculateRMS (env_of [] [Fin (2 ^ 64)] []) 0) = Inr PInf"
  proof -
    have "sum_of_squares [Fin (2 ^ 64)] = PInf"
      using over by (simp add: sum_of_squares_def)
    then show ?thesis
      using calculateRMS_result [OF e(1,2), of "[Fin (2 ^ 64)]"]
      by (simp add: e one inf_signed_def)
  qed
  have s1: "specified_rms [Fin (2 ^ 64)] = Fin (2 ^ 64)"
  proof -
    have "specified_sum_of_squares [Fin (2 ^ 64)] = Fin (2 powi 128)"
      using big64(2) by (simp add: specified_sum_of_squares_def)
    then have "specified_rms [Fin (2 ^ 64)] = double_to_float (fp_sqrt round64 (round64 (2 powi 128)))"
      by (simp add: specified_rms_def one)
    also have "\<dots> = double_to_float (round64 (2 powi 64))"
      by (simp only: big64 fp_sqrt.simps sq) simp
    also have "\<dots> = Fin (2 powi 64)" by (simp only: big64 double_to_float.simps big32)
    finally show ?thesis by simp
  qed
  have c2: "fst (calculateRMS (env_of [] [Fin (1 / 2 ^ 80)] []) 0) = Inr (Fin 0)"
  proof -
    have "sum_of_squares [Fin (1 / 2 ^ 80)] = Fin 0"
      using under by (simp add: sum_of_squares_def power_int_minus_divide)
    then show ?thesis
      using calculateRMS_result [OF e(1,2), of "[Fin (1 / 2 ^ 80)]"]
      by (simp add: e one)
  qed
  have s2: "specified_rms [Fin (1 / 2 ^ 80)] = Fin (1 / 2 ^ 80)"
  proof -
    have "specified_sum_of_squares [Fin (1 / 2 ^ 80)] = Fin (2 powi (- 160))"
      using small64(2) by (simp add: specified_sum_of_squares_def power_int_minus_divide)
    then have "specified_rms [Fin (1 / 2 ^ 80)] =
                 double_to_float (fp_sqrt round64 (round64 (2 powi (- 160))))"
      by (simp add: specified_rms_def one)
    also have "\<dots> = double_to_float (round64 (2 powi (- 80)))"
      by (simp only: small64 fp_sqrt.simps sq) simp
    also have "\<dots> = Fin (2 powi (- 80))"
      by (simp only: small64 double_to_float.simps small32)
    finally show ?thesis by (simp add: power_int_minus_divide)
  qed
  have f: "round32 (2 ^ 64) = Fin (2 ^ 64)" "round32 (1 / 2 ^ 80) = Fin (1 / 2 ^ 80)"
    using big32 small32 by (simp_all add: power_int_minus_divide)
  from f c1 s1 c2 s2 show ?thesis by blast
qed

text \<open>
  C8. On the empty buffer \<^verbatim>\<open>calculateRMS\<close> divides the zero sum by the length zero without
  a guard; the quotient is NaN, and so are its square root and the \<^verbatim>\<open>float\<close> returned: the
  result is neither 0 nor another chosen value.
\<close>

theorem calculateRMS_empty_buffer_NaN:
  assumes "audio_data < length (float_arrays env)" and "no_failure env"
    and "float_arrays env ! audio_data = []"
  shows "fst (calculateRMS env audio_data) = Inr NaN"
  using calculateRMS_result [OF assms(1,2)] assms(3)
  by (simp add: sum_of_squares_def int_to_double_def)

theorem calculateRMS_empty_buffer_NaN_witness:
  "0 < length (float_arrays (env_of [] [] [])) \<and> no_failure (env_of [] [] []) \<and>
   float_arrays (env_of [] [] []) ! 0 = [] \<and>
   fst (calculateRMS (env_of [] [] []) 0) = Inr NaN \<and> NaN \<noteq> Fin 0"
  using calculateRMS_empty_buffer_NaN [of 0 "env_of [] [] []"]
  by (simp add: env_of_def no_failure_def)

section \<open>Equal rates\<close>

text \<open>
  C6. With equal source and target rate \<^verbatim>\<open>resampleAudio\<close> returns the reference it was
  given and touches nothing: no array is created, none is read or written. The result is
  the input array itself, not a copy.
\<close>

theorem resampleAudio_equal_rates_returns_input:
  "resampleAudio env audio_data rate rate = (Inr (Some audio_data), env)"
  by (simp add: resampleAudio_def)

section \<open>Runs in which a JNI call fails\<close>

lemma next_call_fails_cases:
  obtains (fails) env1 where "next_call_fails env = (True, env1)"
      "failures env1 = Suc (failures env)" "short_arrays env1 = short_arrays env"
      "float_arrays env1 = float_arrays env"
  | (succeeds) env1 where "next_call_fails env = (False, env1)"
      "failures env1 = failures env" "short_arrays env1 = short_arrays env"
      "float_arrays env1 = float_arrays env"
proof (cases "failing env")
  case Nil
  then show ?thesis using succeeds [of env] by (simp add: next_call_fails_def)
next
  case (Cons b bs)
  show ?thesis
  proof (cases b)
    case True
    with Cons show ?thesis
      using fails [of "env\<lparr>failing := bs, failures := Suc (failures env)\<rparr>"]
      by (simp add: next_call_fails_def)
  next
    case False
    with Cons show ?thesis
      using succeeds [of "env\<lparr>failing := bs, failures := failures env\<rparr>"]
      by (simp add: next_call_fails_def)
  qed
qed

lemma GetShortArrayElements_cases:
  obtains (fails) env1 where "GetShortArrayElements env a = (None, env1)"
      "failures env1 = Suc (failures env)" "short_arrays env1 = short_arrays env"
      "float_arrays env1 = float_arrays env"
  | (succeeds) env1 where "GetShortArrayElements env a = (Some (short_arrays env ! a), env1)"
      "failures env1 = failures env" "short_arrays env1 = short_arrays env"
      "float_arrays env1 = float_arrays env"
proof (cases rule: next_call_fails_cases [of env])
  case (fails env1)
  then show ?thesis using that(1) [of env1] by (simp add: GetShortArrayElements_def)
next
  case (succeeds env1)
  then show ?thesis using that(2) [of env1] by (simp add: GetShortArrayElements_def)
qed

lemma GetFloatArrayElements_cases:
  obtains (fails) env1 where "GetFloatArrayElements env a = (None, env1)"
      "failures env1 = Suc (failures env)" "short_arrays env1 = short_arrays env"
      "float_arrays env1 = float_arrays env"
  | (succeeds) env1 where "GetFloatArrayElements env a = (Some (float_arrays env ! a), env1)"
      "failures env1 = failures env" "short_arrays env1 = short_arrays env"
      "float_arrays env1 = float_arrays env"
proof (cases rule: next_call_fails_cases [of env])
  case (fails env1)
  then show ?thesis using that(1) [of env1] by (simp add: GetFloatArrayElements_def)
next
  case (succeeds env1)
  then show ?thesis using that(2) [of env1] by (simp add: GetFloatArrayElements_def)
qed

lemma NewFloatArray_cases:
  obtains (fails) env1 where "NewFloatArray env n = (None, env1)"
      "failures env < failures env1" "short_arrays env1 = short_arrays env"
      "float_arrays env1 = float_arrays env"
  | (succeeds) env1 where "NewFloatArray env n = (Some (length (float_arrays env)), env1)"
      "failures env1 = failures env" "short_arrays env1 = short_arrays env"
      "float_arrays env1 = float_arrays env @ [replicate (nat n) (Fin 0)]"
proof (cases rule: next_call_fails_cases [of env])
  case (fails env1)
  then show ?thesis using that(1) [of env1] by (simp add: NewFloatArray_def)
next
  case (succeeds env1)
  show ?thesis
  proof (cases "n < 0")
    case True
    with succeeds show ?thesis
      using that(1) [of "env1\<lparr>failures := Suc (failures env1)\<rparr>"] by (simp add: NewFloatArray_def)
  next
    case False
    with succeeds show ?thesis
      using that(2) [of "env1\<lparr>float_arrays := float_arrays env1 @ [replicate (nat n) (Fin 0)]\<rparr>"]
      by (simp add: NewFloatArray_def)
  qed
qed

lemmas effect_defs = ReleaseFloatArrayElements_def ReleaseShortArrayElements_def
  LOGD_def LOGE_def LOGI_def arrays_preserved_def

lemma pcm16ToFloat_failure:
  assumes "failures env < failures (snd (pcm16ToFloat env pcm_data))"
  shows "fst (pcm16ToFloat env pcm_data) = Inr None \<and>
         arrays_preserved env (snd (pcm16ToFloat env pcm_data))"
proof (cases "GetShortArrayLength env pcm_data")
  case None
  with assms show ?thesis by (simp add: pcm16ToFloat_def)
next
  case (Some len)
  show ?thesis
  proof (cases rule: GetShortArrayElements_cases [of env pcm_data])
    case (fails env1)
    with Some show ?thesis by (simp add: pcm16ToFloat_def effect_defs)
  next
    case get: (succeeds env1)
    show ?thesis
    proof (cases rule: NewFloatArray_cases [of env1 "int len"])
      case (fails env2)
      with Some get show ?thesis by (simp add: pcm16ToFloat_def effect_defs)
    next
      case new: (succeeds env2)
      show ?thesis
      proof (cases rule: GetFloatArrayElements_cases [of env2 "length (float_arrays env1)"])
        case (fails env3)
        with Some get new show ?thesis by (simp add: pcm16ToFloat_def effect_defs)
      next
        case (succeeds env3)
        with Some get new assms show ?thesis by (simp add: pcm16ToFloat_def effect_defs Let_def)
      qed
    qed
  qed
qed

declare resample_loop.simps [simp del]
declare normalize_loop.simps [simp del]
declare max_abs_loop.simps [simp del]

lemma resampleAudio_failure:
  assumes "failures env <
             failures (snd (resampleAudio env audio_data source_rate target_rate))"
  shows "fst (resampleAudio env audio_data source_rate target_rate) = Inr None \<and>
         arrays_preserved env (snd (resampleAudio env audio_data source_rate target_rate))"
proof (cases "source_rate = target_rate")
  case True
  with assms show ?thesis by (simp add: resampleAudio_def)
next
  case rates: False
  show ?thesis
  proof (cases "GetFloatArrayLength env audio_data")
    case None
    with assms rates show ?thesis by (simp add: resampleAudio_def)
  next
    case (Some source_length)
    show ?thesis
    proof (cases rule: GetFloatArrayElements_cases [of env audio_data])
      case (fails env1)
      with rates Some show ?thesis by (simp add: resampleAudio_def effect_defs)
    next
      case get: (succeeds env1)
      define ratio where "ratio = fp_div round64 (int_to_double (sint target_rate))
                    (int_to_double (sint source_rate))"
      show ?thesis
      proof (cases "double_to_jsize (fp_mul round64 (int_to_double (int source_length)) ratio)")
        case None
        with rates Some get assms show ?thesis
          by (simp add: resampleAudio_def ratio_def [symmetric])
      next
        case len: (Some target_length)
        show ?thesis
        proof (cases rule: NewFloatArray_cases [of env1 target_length])
          case (fails env2)
          with rates Some get len show ?thesis
            by (simp add: resampleAudio_def ratio_def [symmetric] effect_defs)
        next
          case new: (succeeds env2)
          show ?thesis
          proof (cases rule: GetFloatArrayElements_cases [of env2 "length (float_arrays env1)"])
            case (fails env3)
            with rates Some get len new show ?thesis
              by (simp add: resampleAudio_def ratio_def [symmetric] effect_defs)
          next
            case (succeeds env3)
            with rates Some get len new assms show ?thesis
              by (simp add: resampleAudio_def ratio_def [symmetric] effect_defs Let_def
                  split: sum.splits)
          qed
        qed
      qed
    qed
  qed
qed

lemma highPassFilter_failure:
  assumes "failures env <
             failures (snd (highPassFilter env audio_data cutoff_freq sample_rate))"
  shows "fst (highPassFilter env audio_data cutoff_freq sample_rate) = Inr None \<and>
         arrays_preserved env (snd (highPassFilter env audio_data cutoff_freq sample_rate))"
proof (cases "GetFloatArrayLength env audio_data")
  case None
  with assms show ?thesis by (simp add: highPassFilter_def)
next
  case (Some len)
  show ?thesis
  proof (cases rule: GetFloatArrayElements_cases [of env audio_data])
    case (fails env1)
    with Some show ?thesis by (simp add: highPassFilter_def effect_defs)
  next
    case get: (succeeds env1)
    show ?thesis
    proof (cases rule: NewFloatArray_cases [of env1 "int len"])
      case (fails env2)
      with Some get show ?thesis by (simp add: highPassFilter_def effect_defs)
    next
      case new: (succeeds env2)
      show ?thesis
      proof (cases rule: GetFloatArrayElements_cases [of env2 "length (float_arrays env1)"])
        case (fails env3)
        with Some get new show ?thesis by (simp add: highPassFilter_def effect_defs)
      next
        case (succeeds env3)
        with Some get new assms show ?thesis
          by (simp add: highPassFilter_def effect_defs Let_def split: option.splits sum.splits)
      qed
    qed
  qed
qed

lemma normalizeAudio_failure:
  assumes "failures env < failures (snd (normalizeAudio env audio_data target_level))"
  shows "fst (normalizeAudio env audio_data target_level) = Inr None \<and>
         arrays_preserved env (snd (normalizeAudio env audio_data target_level))"
proof (cases "GetFloatArrayLength env audio_data")
  case None
  with assms show ?thesis by (simp add: normalizeAudio_def)
next
  case (Some len)
  show ?thesis
  proof (cases rule: GetFloatArrayElements_cases [of env audio_data])
    case (fails env1)
    with Some show ?thesis by (simp add: normalizeAudio_def effect_defs)
  next
    case get: (succeeds env1)
    show ?thesis
    proof (cases "fp_eq (max_abs_loop (float_arrays env ! audio_data) len 0 (Fin 0)) (Fin 0)")
      case True
      with Some get assms show ?thesis by (simp add: normalizeAudio_def effect_defs Let_def)
    next
      case loud: False
      show ?thesis
      proof (cases rule: NewFloatArray_cases [of env1 "int len"])
        case (fails env2)
        with Some get loud show ?thesis by (simp add: normalizeAudio_def effect_defs Let_def)
      next
        case new: (succeeds env2)
        show ?thesis
        proof (cases rule: GetFloatArrayElements_cases [of env2 "length (float_arrays env1)"])
          case (fails env3)
          with Some get loud new show ?thesis
            by (simp add: normalizeAudio_def effect_defs Let_def)
        next
          case (succeeds env3)
          with Some get loud new assms show ?thesis
            by (simp add: normalizeAudio_def effect_defs Let_def)
        qed
      qed
    qed
  qed
qed

lemma calculateRMS_failure:
  assumes "failures env < failures (snd (calculateRMS env audio_data))"
  shows "fst (calculateRMS env audio_data) = Inr (Fin 0) \<and>
         arrays_preserved env (snd (calculateRMS env audio_data))"
proof (cases "GetFloatArrayLength env audio_data")
  case None
  with assms show ?thesis by (simp add: calculateRMS_def)
next
  case (Some len)
  show ?thesis
  proof (cases rule: GetFloatArrayElements_cases [of env audio_data])
    case (fails env1)
    with Some show ?thesis by (simp add: calculateRMS_def effect_defs)
  next
    case (succeeds env1)
    with Some assms show ?thesis by (simp add: calculateRMS_def effect_defs Let_def)
  qed
qed

text \<open>
  A reference that denotes no array (the null reference, for one) is not an input the
  routines handle: each passes its array argument to \<^verbatim>\<open>GetArrayLength\<close> before any check, and
  the run is a fault.
\<close>

lemma invalid_reference_faults:
  "\<not> pcm_data < length (short_arrays env) \<Longrightarrow>
     pcm16ToFloat env pcm_data = (Inl InvalidReference, env)"
  "\<not> audio_data < length (float_arrays env) \<Longrightarrow> source_rate \<noteq> target_rate \<Longrightarrow>
     resampleAudio env audio_data source_rate target_rate = (Inl InvalidReference, env)"
  "\<not> audio_data < length (float_arrays env) \<Longrightarrow>
     highPassFilter env audio_data cutoff_freq sample_rate = (Inl InvalidReference, env)"
  "\<not> audio_data < length (float_arrays env) \<Longrightarrow>
     normalizeAudio env audio_data target_level = (Inl InvalidReference, env)"
  "\<not> audio_data < length (float_arrays env) \<Longrightarrow>
     calculateRMS env audio_data = (Inl InvalidReference, env)"
  by (simp_all add: pcm16ToFloat_def resampleAudio_def highPassFilter_def normalizeAudio_def
      calculateRMS_def GetShortArrayLength_def GetFloatArrayLength_def)

text \<open>
  C7, as the source has it. For an input whose array reference denotes an array: when a JNI
  call of a run fails (the elements of the input or of the new array cannot be obtained, or
  the new array cannot be created), the routine returns normally with the null reference
  (\<^verbatim>\<open>calculateRMS\<close>, whose result is a number, with \<open>0.0\<close>), and every array that existed before
  the call has the contents it had: the input is unmodified and no written output can be
  reached. A reference that denotes no array is not reported in this way: the run is a
  fault, with no result and no failure recorded.
\<close>

theorem failure_returns_null_and_preserves_arrays:
  "(failures env < failures (snd (pcm16ToFloat env pcm_data)) \<longrightarrow>
      pcm_data < length (short_arrays env) \<and>
      fst (pcm16ToFloat env pcm_data) = Inr None \<and>
      arrays_preserved env (snd (pcm16ToFloat env pcm_data))) \<and>
   (failures env < failures (snd (resampleAudio env audio_data source_rate target_rate)) \<longrightarrow>
      audio_data < length (float_arrays env) \<and>
      fst (resampleAudio env audio_data source_rate target_rate) = Inr None \<and>
      arrays_preserved env (snd (resampleAudio env audio_data source_rate target_rate))) \<and>
   (failures env < failures (snd (highPassFilter env audio_data cutoff_freq sample_rate)) \<longrightarrow>
      audio_data < length (float_arrays env) \<and>
      fst (highPassFilter env audio_data cutoff_freq sample_rate) = Inr None \<and>
      arrays_preserved env (snd (highPassFilter env audio_data cutoff_freq sample_rate))) \<and>
   (failures env < failures (snd (normalizeAudio env audio_data target_level)) \<longrightarrow>
      audio_data < length (float_arrays env) \<and>
      fst (normalizeAudio env audio_data target_level) = Inr None \<and>
      arrays_preserved env (snd (normalizeAudio env audio_data target_level))) \<and>
   (failures env < failures (snd (calculateRMS env audio_data)) \<longrightarrow>
      audio_data < length (float_arrays env) \<and>
      fst (calculateRMS env audio_data) = Inr (Fin 0) \<and>
      arrays_preserved env (snd (calculateRMS env audio_data))) \<and>
   (\<not> pcm_data < length (short_arrays env) \<longrightarrow>
      pcm16ToFloat env pcm_data = (Inl InvalidReference, env)) \<and>
   (\<not> audio_data < length (float_arrays env) \<longrightarrow>
      (source_rate \<noteq> target_rate \<longrightarrow>
         resampleAudio env audio_data source_rate target_rate = (Inl InvalidReference, env)) \<and>
      highPassFilter env audio_data cutoff_freq sample_rate = (Inl InvalidReference, env) \<and>
      normalizeAudio env audio_data target_level = (Inl InvalidReference, env) \<and>
      calculateRMS env audio_data = (Inl InvalidReference, env))"
proof -
  have "pcm_data < length (short_arrays env)"
    if "failures env < failures (snd (pcm16ToFloat env pcm_data))"
    using that invalid_reference_faults(1) [of pcm_data env] by (cases "pcm_data < length (short_arrays env)") simp_all
  moreover have "audio_data < length (float_arrays env)"
    if "failures env < failures (snd (resampleAudio env audio_data source_rate target_rate))"
    using that invalid_reference_faults(2) [of audio_data env source_rate target_rate]
    by (cases "audio_data < length (float_arrays env)"; cases "source_rate = target_rate")
       (simp_all add: resampleAudio_def)
  moreover have "audio_data < length (float_arrays env)"
    if "failures env < failures (snd (highPassFilter env audio_data cutoff_freq sample_rate))"
    using that invalid_reference_faults(3) [of audio_data env cutoff_freq sample_rate]
    by (cases "audio_data < length (float_arrays env)") simp_all
  moreover have "audio_data < length (float_arrays env)"
    if "failures env < failures (snd (normalizeAudio env audio_data target_level))"
    using that invalid_reference_faults(4) [of audio_data env target_level]
    by (cases "audio_data < length (float_arrays env)") simp_all
  moreover have "audio_data < length (float_arrays env)"
    if "failures env < failures (snd (calculateRMS env audio_data))"
    using that invalid_reference_faults(5) [of audio_data env]
    by (cases "audio_data < length (float_arrays env)") simp_all
  ultimately show ?thesis
    using pcm16ToFloat_failure [of env pcm_data]
      resampleAudio_failure [of env audio_data source_rate target_rate]
      highPassFilter_failure [of env audio_data cutoff_freq sample_rate]
      normalizeAudio_failure [of env audio_data target_level]
      calculateRMS_failure [of env audio_data]
      invalid_reference_faults(1) [of pcm_data env]
      invalid_reference_faults(2) [of audio_data env source_rate target_rate]
      invalid_reference_faults(3) [of audio_data env cutoff_freq sample_rate]
      invalid_reference_faults(4) [of audio_data env target_level]
      invalid_reference_faults(5) [of audio_data env]
    by blast
qed

lemma failing_runs:
  "failures (env_of [1, 2] [Fin 1, Fin 2] [False, True]) <
     failures (snd (pcm16ToFloat (env_of [1, 2] [Fin 1, Fin 2] [False, True]) 0))"
  "failures (env_of [1, 2] [Fin 1, Fin 2] [True]) <
     failures (snd (resampleAudio (env_of [1, 2] [Fin 1, Fin 2] [True]) 0 8000 16000))"
  "failures (env_of [1, 2] [Fin 1, Fin 2] [False, False, True]) <
     failures (snd (highPassFilter (env_of [1, 2] [Fin 1, Fin 2] [False, False, True]) 0
                      (Fin 100) 16000))"
  "failures (env_of [1, 2] [Fin 1, Fin 2] [False, True]) <
     failures (snd (normalizeAudio (env_of [1, 2] [Fin 1, Fin 2] [False, True]) 0 (Fin 1)))"
  "failures (env_of [1, 2] [Fin 1, Fin 2] [True]) <
     failures (snd (calculateRMS (env_of [1, 2] [Fin 1, Fin 2] [True]) 0))"
  by (simp_all add: pcm16ToFloat_def resampleAudio_def highPassFilter_def normalizeAudio_def
      calculateRMS_def jni_defs next_call_fails_def env_of_def Let_def max_abs_loop.simps
      fp_eq_def)

text \<open>
  Runs in which the second, the first and the third JNI call fail, and a run of
  \<^verbatim>\<open>normalizeAudio\<close> on a reference that denotes no array.
\<close>

theorem failure_returns_null_and_preserves_arrays_witness:
  "fst (pcm16ToFloat (env_of [1, 2] [Fin 1, Fin 2] [False, True]) 0) = Inr None \<and>
   arrays_preserved (env_of [1, 2] [Fin 1, Fin 2] [False, True])
     (snd (pcm16ToFloat (env_of [1, 2] [Fin 1, Fin 2] [False, True]) 0)) \<and>
   fst (resampleAudio (env_of [1, 2] [Fin 1, Fin 2] [True]) 0 8000 16000) = Inr None \<and>
   arrays_preserved (env_of [1, 2] [Fin 1, Fin 2] [True])
     (snd (resampleAudio (env_of [1, 2] [Fin 1, Fin 2] [True]) 0 8000 16000)) \<and>
   fst (highPassFilter (env_of [1, 2] [Fin 1, Fin 2] [False, False, True]) 0 (Fin 100) 16000) =
     Inr None \<and>
   arrays_preserved (env_of [1, 2] [Fin 1, Fin 2] [False, False, True])
     (snd (highPassFilter (env_of [1, 2] [Fin 1, Fin 2] [False, False, True]) 0
             (Fin 100) 16000)) \<and>
   fst (normalizeAudio (env_of [1, 2] [Fin 1, Fin 2] [False, True]) 0 (Fin 1)) = Inr None \<and>
   arrays_preserved (env_of [1, 2] [Fin 1, Fin 2] [False, True])
     (snd (normalizeAudio (env_of [1, 2] [Fin 1, Fin 2] [False, True]) 0 (Fin 1))) \<and>
   fst (calculateRMS (env_of [1, 2] [Fin 1, Fin 2] [True]) 0) = Inr (Fin 0) \<and>
   arrays_preserved (env_of [1, 2] [Fin 1, Fin 2] [True])
     (snd (calculateRMS (env_of [1, 2] [Fin 1, Fin 2] [True]) 0)) \<and>
   \<not> 1 < length (float_arrays (env_of [1, 2] [Fin 1, Fin 2] [])) \<and>
   normalizeAudio (env_of [1, 2] [Fin 1, Fin 2] []) 1 (Fin 1) =
     (Inl InvalidReference, env_of [1, 2] [Fin 1, Fin 2] [])"
proof -
  note t = failure_returns_null_and_preserves_arrays
  have 1: "fst (pcm16ToFloat (env_of [1, 2] [Fin 1, Fin 2] [False, True]) 0) = Inr None \<and>
     arrays_preserved (env_of [1, 2] [Fin 1, Fin 2] [False, True])
       (snd (pcm16ToFloat (env_of [1, 2] [Fin 1, Fin 2] [False, True]) 0))"
    using t [of "env_of [1, 2] [Fin 1, Fin 2] [False, True]" 0 0 0 0 NaN 0 NaN, THEN conjunct1]
      failing_runs(1) by blast
  have 2: "fst (resampleAudio (env_of [1, 2] [Fin 1, Fin 2] [True]) 0 8000 16000) = Inr None \<and>
     arrays_preserved (env_of [1, 2] [Fin 1, Fin 2] [True])
       (snd (resampleAudio (env_of [1, 2] [Fin 1, Fin 2] [True]) 0 8000 16000))"
    using t [of "env_of [1, 2] [Fin 1, Fin 2] [True]" 0 0 8000 16000 NaN 0 NaN,
        THEN conjunct2, THEN conjunct1]
      failing_runs(2) by blast
  have 3: "fst (highPassFilter (env_of [1, 2] [Fin 1, Fin 2] [False, False, True]) 0 (Fin 100)
                  16000) = Inr None \<and>
     arrays_preserved (env_of [1, 2] [Fin 1, Fin 2] [False, False, True])
       (snd (highPassFilter (env_of [1, 2] [Fin 1, Fin 2] [False, False, True]) 0
               (Fin 100) 16000))"
    using t [of "env_of [1, 2] [Fin 1, Fin 2] [False, False, True]" 0 0 0 0 "Fin 100" 16000 NaN,
        THEN conjunct2, THEN conjunct2, THEN conjunct1]
      failing_runs(3) by blast
  have 4: "fst (normalizeAudio (env_of [1, 2] [Fin 1, Fin 2] [False, True]) 0 (Fin 1)) = Inr None \<and>
     arrays_preserved (env_of [1, 2] [Fin 1, Fin 2] [False, True])
       (snd (normalizeAudio (env_of [1, 2] [Fin 1, Fin 2] [False, True]) 0 (Fin 1)))"
    using t [of "env_of [1, 2] [Fin 1, Fin 2] [False, True]" 0 0 0 0 NaN 0 "Fin 1",
        THEN conjunct2, THEN conjunct2, THEN conjunct2, THEN conjunct1]
      failing_runs(4) by blast
  have 5: "fst (calculateRMS (env_of [1, 2] [Fin 1, Fin 2] [True]) 0) = Inr (Fin 0) \<and>
     arrays_preserved (env_of [1, 2] [Fin 1, Fin 2] [True])
       (snd (calculateRMS (env_of [1, 2] [Fin 1, Fin 2] [True]) 0))"
    using t [of "env_of [1, 2] [Fin 1, Fin 2] [True]" 0 0 0 0 NaN 0 NaN,
        THEN conjunct2, THEN conjunct2, THEN conjunct2, THEN conjunct2, THEN conjunct1]
      failing_runs(5) by blast
  have 6: "\<not> 1 < length (float_arrays (env_of [1, 2] [Fin 1, Fin 2] []))"
    by (simp add: env_of_def)
  have 7: "normalizeAudio (env_of [1, 2] [Fin 1, Fin 2] []) 1 (Fin 1) =
     (Inl InvalidReference, env_of [1, 2] [Fin 1, Fin 2] [])"
    using t [of "env_of [1, 2] [Fin 1, Fin 2] []" 0 1 0 0 NaN 0 "Fin 1",
        THEN conjunct2, THEN conjunct2, THEN conjunct2, THEN conjunct2, THEN conjunct2,
        THEN conjunct2] 6 by blast
  from 1 2 3 4 5 6 7 show ?thesis by (intro conjI) (erule conjunct1 conjunct2 | assumption)+
qed

text \<open>
  The claim as stated fails on an input-access failure of this kind: with the reference 1 in
  an environment whose only arrays have the reference 0, every routine ends with the fault
  \<open>InvalidReference\<close> (undefined behaviour in the source) instead of returning null.
\<close>

theorem invalid_reference_counterexample:
  "fst (pcm16ToFloat (env_of [1, 2] [Fin 1, Fin 2] []) 1) = Inl InvalidReference \<and>
   fst (resampleAudio (env_of [1, 2] [Fin 1, Fin 2] []) 1 8000 16000) = Inl InvalidReference \<and>
   fst (highPassFilter (env_of [1, 2] [Fin 1, Fin 2] []) 1 (Fin 100) 16000) =
     Inl InvalidReference \<and>
   fst (normalizeAudio (env_of [1, 2] [Fin 1, Fin 2] []) 1 (Fin 1)) = Inl InvalidReference \<and>
   fst (calculateRMS (env_of [1, 2] [Fin 1, Fin 2] []) 1) = Inl InvalidReference \<and>
   fst (pcm16ToFloat (env_of [1, 2] [Fin 1, Fin 2] []) 1) \<noteq> Inr None \<and>
   fst (calculateRMS (env_of [1, 2] [Fin 1, Fin 2] []) 1) \<noteq> Inr (Fin 0)"
  by (simp add: pcm16ToFloat_def resampleAudio_def highPassFilter_def normalizeAudio_def
      calculateRMS_def GetShortArrayLength_def GetFloatArrayLength_def env_of_def)

section \<open>Resampling\<close>

lemma resample_loop_step:
  assumes "int i < target_length" "resample_sample source_audio ratio i = Inr v"
  shows "resample_loop source_audio (int (length source_audio)) ratio target_length i target_audio =
         resample_loop source_audio (int (length source_audio)) ratio target_length (Suc i)
           (target_audio[i := v])"
  using assms
  by (subst resample_loop.simps)
     (auto simp: resample_sample_def Let_def split: option.splits if_splits)

lemma resample_loop_samples:
  assumes "int (length target_audio) = target_length"
    and "\<forall>k. i \<le> k \<and> int k < target_length \<longrightarrow> resample_sample source_audio ratio k = Inr (g k)"
  shows "\<exists>out. resample_loop source_audio (int (length source_audio)) ratio target_length i
                 target_audio = Inr out \<and>
               length out = length target_audio \<and>
               (\<forall>k<length out. out ! k = (if i \<le> k then g k else target_audio ! k))"
  using assms
proof (induction "nat (target_length - int i)" arbitrary: i target_audio)
  case 0
  then have "\<not> int i < target_length" by simp
  then show ?case using "0.prems"(1) by (subst resample_loop.simps) auto
next
  case (Suc n)
  then have lt: "int i < target_length" by linarith
  then have s: "resample_sample source_audio ratio i = Inr (g i)" using Suc.prems(2) by simp
  have n: "n = nat (target_length - int (Suc i))" using Suc.hyps(2) by simp
  have "\<exists>out. resample_loop source_audio (int (length source_audio)) ratio target_length (Suc i)
                 (target_audio[i := g i]) = Inr out \<and>
               length out = length (target_audio[i := g i]) \<and>
               (\<forall>k<length out. out ! k = (if Suc i \<le> k then g k else target_audio[i := g i] ! k))"
    using Suc.prems by (intro Suc.hyps(1) [OF n]) auto
  then obtain out where out:
    "resample_loop source_audio (int (length source_audio)) ratio target_length (Suc i)
       (target_audio[i := g i]) = Inr out"
    "length out = length target_audio"
    "\<forall>k<length out. out ! k = (if Suc i \<le> k then g k else target_audio[i := g i] ! k)"
    by auto
  have "\<forall>k<length out. out ! k = (if i \<le> k then g k else target_audio ! k)"
    using out(2,3) by (auto simp: nth_list_update not_less_eq_eq)
  then show ?case using out(1,2) resample_loop_step [OF lt s] by simp
qed


text \<open>The ratio of two positive 32-bit rates is a finite positive \<^verbatim>\<open>double\<close>.\<close>

lemma resample_ratio:
  assumes "1 \<le> a" "a < 2 ^ 31" "1 \<le> b" "b < 2 ^ 31"
  shows "\<exists>r. fp_div round64 (int_to_double a) (int_to_double b) = Fin r \<and>
             2 powi (- 31) \<le> r \<and> r \<le> 2 powi 31 \<and>
             \<bar>r - of_int a / of_int b\<bar> \<le> 2 powi (- 53) * (of_int a / of_int b)"
proof -
  define x :: real where "x = of_int a / of_int b"
  have ra: "1 \<le> real_of_int a" "real_of_int a < 2 ^ 31" "1 \<le> real_of_int b" "real_of_int b < 2 ^ 31"
    using assms by simp_all
  have lo: "2 powi (- 31) \<le> x"
  proof -
    have "1 / 2 ^ 31 \<le> 1 / real_of_int b" using ra by (intro divide_left_mono) auto
    also have "\<dots> \<le> real_of_int a / real_of_int b" using ra by (intro divide_right_mono) auto
    finally show ?thesis by (simp add: x_def power_int_minus_divide)
  qed
  have hi: "x \<le> 2 powi 31"
  proof -
    have "real_of_int a / real_of_int b \<le> real_of_int a / 1" using ra by (intro divide_left_mono) auto
    then show ?thesis using ra by (simp add: x_def)
  qed
  obtain r where r: "round64 x = Fin r" "2 powi (- 31) \<le> r" "r \<le> 2 powi 31"
    using round_to_between [OF lo hi, of 53 "- 1022" 1023] round64_power2 [of "- 31"]
      round64_power2 [of 31]
    by (auto simp: round64_def)
  have "(2::real) powi (- 1022) \<le> 2 powi (- 31)" by (simp only: two_powi_le_iff)
  with lo have "2 powi (- 1022) \<le> \<bar>x\<bar>" by linarith
  then have "\<bar>r - x\<bar> \<le> 2 powi (- int 53) * \<bar>x\<bar>"
    using r(1) unfolding round64_def by (intro round_to_error) auto
  moreover have "0 \<le> x" using lo by (rule order_trans [rotated]) simp
  moreover have "fp_div round64 (int_to_double a) (int_to_double b) = round64 x"
    using assms by (simp add: int_to_double_exact x_def)
  ultimately show ?thesis using r by (auto simp: x_def)
qed

text \<open>
  The target length \<open>m\<close> is the truncated product of the source length \<open>n\<close> and the
  ratio. For every output index below it, the source index is a finite \<^verbatim>\<open>double\<close> whose
  truncation lies between 0 and \<open>n\<close>.
\<close>

lemma resample_source_index:
  assumes r: "2 powi (- 31) \<le> r" "r \<le> 2 powi 31"
    and n: "0 \<le> n" "n < 2 ^ 31"
    and m: "double_to_jsize (fp_mul round64 (int_to_double n) (Fin r)) = Some m"
    and i: "0 \<le> i" "i < m"
  shows "\<exists>index. double_to_jsize (fp_div round64 (int_to_double i) (Fin r)) = Some index \<and>
                 0 \<le> index \<and> index \<le> n \<and> 1 \<le> n"
proof -
  have rpos: "0 < r" using r(1) by (rule less_le_trans [rotated]) simp
  have rn: "0 \<le> real_of_int n" "real_of_int n < 2 ^ 31"
    using n by simp_all
  obtain p where p: "round64 (of_int n * r) = Fin p"
    using m n by (cases "round64 (of_int n * r)") (simp_all add: int_to_double_exact)
  have p0: "0 \<le> p"
    using p rn(1) rpos round_unbounded_nonneg [of "of_int n * r" 53 "- 1022"]
    by (simp add: round64_def round_to_finite)
  have mp: "of_int m \<le> p" "m < 2 ^ 31"
    using m n p p0 by (auto simp: int_to_double_exact Let_def split: if_splits)
  have n1: "1 \<le> n"
  proof (rule ccontr)
    assume "\<not> 1 \<le> n"
    with n have "n = 0" by simp
    with p have "p = 0" by simp
    with mp(1) i show False by simp
  qed
  then have rn1: "1 \<le> real_of_int n" by simp
  define eps :: real where "eps = 2 powi (- 53)"
  have eps: "0 < eps" "2 ^ 31 * eps \<le> 1 / 2" by (simp_all add: eps_def)
  have perr: "p \<le> of_int n * r * (1 + eps)"
  proof -
    have "2 powi (- 1022) \<le> (2::real) powi (- 31)" by (simp only: two_powi_le_iff)
    also have "\<dots> \<le> 1 * r" using r(1) by simp
    also have "\<dots> \<le> of_int n * r" using rn1 rpos by (intro mult_right_mono) auto
    finally have "2 powi (- 1022) \<le> \<bar>of_int n * r\<bar>" using rpos rn(1) by (simp add: abs_mult)
    then have "\<bar>p - of_int n * r\<bar> \<le> 2 powi (- int 53) * \<bar>of_int n * r\<bar>"
      using p unfolding round64_def by (intro round_to_error) auto
    then have "\<bar>p - of_int n * r\<bar> \<le> eps * \<bar>of_int n * r\<bar>" by (simp only: eps_def) simp
    moreover have "\<bar>of_int n * r\<bar> = of_int n * r" using rpos rn(1) by simp
    moreover have "p - of_int n * r \<le> \<bar>p - of_int n * r\<bar>" by simp
    ultimately have "p - of_int n * r \<le> eps * (of_int n * r)" by linarith
    then show ?thesis by (simp add: algebra_simps)
  qed
  have ri: "0 \<le> real_of_int i" using i(1) by simp
  have "real_of_int i \<le> of_int m" using i(2) by simp
  also have "\<dots> \<le> p" by (rule mp)
  also have "\<dots> \<le> of_int n * r * (1 + eps)" by (rule perr)
  finally have "real_of_int i / r \<le> of_int n * r * (1 + eps) / r"
    using rpos by (intro divide_right_mono) auto
  also have "\<dots> = of_int n + of_int n * eps" using rpos by (simp add: field_simps)
  also have "\<dots> \<le> of_int n + 2 ^ 31 * eps"
    using rn(2) eps(1) by (intro add_left_mono mult_right_mono) auto
  also have "\<dots> \<le> of_int n + 1 / 2" using eps(2) by simp
  finally have up: "real_of_int i / r \<le> of_int n + 1 / 2" .
  have lo: "0 \<le> real_of_int i / r" using ri rpos by simp
  have hi_exact: "round64 (of_int n + 1 / 2) = Fin (of_int n + 1 / 2)"
  proof -
    have eq: "real_of_int n + 1 / 2 = of_int (2 * n + 1) * 2 powi (- 1)" by simp
    have "\<bar>2 * n + 1\<bar> < 2 ^ 53" using n by simp
    moreover have "\<bar>real_of_int (2 * n + 1) * 2 powi (- 1)\<bar> < 2 powi (1023 + 1)"
      using rn by simp
    ultimately show ?thesis
      unfolding eq round64_def by (intro round_to_exact) simp_all
  qed
  obtain s where s: "round64 (of_int i / r) = Fin s" "0 \<le> s" "s \<le> of_int n + 1 / 2"
    using round_to_between [OF lo up, of 53 "- 1022" 1023] hi_exact
    by (auto simp: round64_def)
  have ilt: "\<bar>i\<bar> < 2 ^ 31" using i mp(2) by simp
  have "fp_div round64 (int_to_double i) (Fin r) = Fin s"
    using rpos s(1) ilt by (simp add: int_to_double_exact)
  moreover have "0 \<le> \<lfloor>s\<rfloor>" using s(2) by simp
  moreover have "\<lfloor>s\<rfloor> \<le> n"
  proof -
    have "s < of_int (n + 1)" using s(3) by simp
    then have "\<lfloor>s\<rfloor> < n + 1" by (simp only: floor_less_iff)
    then show ?thesis by simp
  qed
  moreover have "s < 2 ^ 31"
  proof -
    have "n + 1 \<le> 2 ^ 31" using n by simp
    then have "real_of_int (n + 1) \<le> real_of_int (2 ^ 31)" by (simp only: of_int_le_iff)
    then show ?thesis using s(3) by simp
  qed
  ultimately show ?thesis using s(2) n n1 by (intro exI [of _ "\<lfloor>s\<rfloor>"]) (simp add: Let_def)
qed

lemma resample_sample_value:
  assumes "double_to_jsize (fp_div round64 (int_to_double (int k)) ratio) = Some index"
    and "0 \<le> index" and "1 \<le> length audio"
  shows "resample_sample audio ratio k = Inr (interpolate audio ratio k index)"
  using assms
  by (auto simp: resample_sample_def interpolate_def rd_def Let_def nat_diff_distrib)

lemma double_to_jsize_nonneg:
  assumes "double_to_jsize (round64 x) = Some m" "0 \<le> x"
  shows "0 \<le> m"
proof -
  obtain p where p: "round64 x = Fin p" using assms(1) by (cases "round64 x") simp_all
  then have "0 \<le> p"
    using assms(2) round_unbounded_nonneg [of x 53 "- 1022"]
    by (simp add: round64_def round_to_finite)
  then show ?thesis using assms(1) p by (auto simp: Let_def split: if_splits)
qed

lemma resampleAudio_result:
  assumes "audio_data < length (float_arrays env)" and "no_failure env"
    and "float_arrays env ! audio_data = audio" and "length audio < 2 ^ 31"
    and "0 < sint source_rate" and "0 < sint target_rate" and "source_rate \<noteq> target_rate"
    and "ratio = fp_div round64 (int_to_double (sint target_rate))
                   (int_to_double (sint source_rate))"
    and "double_to_jsize (fp_mul round64 (int_to_double (int (length audio))) ratio) =
           Some target_length"
  shows "\<exists>out. returned_floats (resampleAudio env audio_data source_rate target_rate) = Some out \<and>
               int (length out) = target_length \<and>
               (\<forall>i<length out.
                  \<exists>index. double_to_jsize (fp_div round64 (int_to_double (int i)) ratio) =
                            Some index \<and>
                          0 \<le> index \<and> out ! i = interpolate audio ratio i index)"
proof -
  have s: "1 \<le> sint source_rate" "sint source_rate < 2 ^ 31"
    using assms(5) sint_lt [of source_rate] by simp_all
  have t: "1 \<le> sint target_rate" "sint target_rate < 2 ^ 31"
    using assms(6) sint_lt [of target_rate] by simp_all
  obtain r where r: "ratio = Fin r" "2 powi (- 31) \<le> r" "r \<le> 2 powi 31"
    using resample_ratio [OF t s] assms(8) by auto
  have rpos: "0 < r" using r(2) by (rule less_le_trans [rotated]) simp
  have n: "0 \<le> int (length audio)" "int (length audio) < 2 ^ 31" using assms(4) by simp_all
  have len: "double_to_jsize (fp_mul round64 (int_to_double (int (length audio))) (Fin r)) =
               Some target_length"
    using assms(9) r(1) by simp
  have "double_to_jsize (round64 (of_int (int (length audio)) * r)) = Some target_length"
    using len n by (simp add: int_to_double_exact)
  then have tl0: "0 \<le> target_length"
    using rpos by (intro double_to_jsize_nonneg [of "of_int (int (length audio)) * r"]) auto
  define g where "g k = projr (resample_sample audio ratio k)" for k
  have sample: "\<exists>index. double_to_jsize (fp_div round64 (int_to_double (int k)) ratio) = Some index \<and>
                  0 \<le> index \<and> resample_sample audio ratio k = Inr (g k) \<and>
                  g k = interpolate audio ratio k index"
    if k: "int k < target_length" for k
  proof -
    have k0: "0 \<le> int k" by simp
    obtain index where
      "double_to_jsize (fp_div round64 (int_to_double (int k)) (Fin r)) = Some index"
      "0 \<le> index" "1 \<le> int (length audio)"
      using resample_source_index [OF r(2,3) n len k0 k] by auto
    then show ?thesis
      using resample_sample_value [of k ratio index audio] r(1) by (auto simp: g_def)
  qed
  let ?zeros = "replicate (nat target_length) (Fin 0)"
  have "\<exists>out. resample_loop audio (int (length audio)) ratio target_length 0 ?zeros = Inr out \<and>
              length out = length ?zeros \<and>
              (\<forall>k<length out. out ! k = (if 0 \<le> k then g k else ?zeros ! k))"
    using tl0 sample by (intro resample_loop_samples) auto
  then obtain out where out:
    "resample_loop audio (int (length audio)) ratio target_length 0 ?zeros = Inr out"
    "int (length out) = target_length" "\<forall>k<length out. out ! k = g k"
    using tl0 by auto
  have "returned_floats (resampleAudio env audio_data source_rate target_rate) = Some out"
    using assms(1-3,7) tl0 out(1) assms(9) [unfolded assms(8)]
    by (simp add: resampleAudio_def jni_defs next_call_succeeds not_in_tl no_failure_def
        returned_floats_def Let_def nth_append assms(8) [symmetric])
  moreover have "\<exists>index. double_to_jsize (fp_div round64 (int_to_double (int i)) ratio) = Some index \<and>
                  0 \<le> index \<and> out ! i = interpolate audio ratio i index"
    if "i < length out" for i
    using sample [of i] out(2,3) that by auto
  ultimately show ?thesis using out(2) by blast
qed

text \<open>
  The truncated \<^verbatim>\<open>double\<close> product differs from the exact quotient \<open>\<lfloor>n * a / b\<rfloor>\<close> by at
  most one.
\<close>

lemma target_length_near_floor:
  assumes a: "1 \<le> a" "a < 2 ^ 31" and b: "1 \<le> b" "b < 2 ^ 31" and n: "0 \<le> n" "n < 2 ^ 31"
    and m: "double_to_jsize
              (fp_mul round64 (int_to_double n)
                 (fp_div round64 (int_to_double a) (int_to_double b))) = Some m"
  shows "\<bar>m - \<lfloor>real_of_int n * of_int a / of_int b\<rfloor>\<bar> \<le> 1"
proof -
  define x0 :: real where "x0 = of_int a / of_int b"
  define X :: real where "X = of_int n * x0"
  define eps :: real where "eps = 2 powi (- 53)"
  define c :: real where "c = 1 / 2 ^ 51"
  have c: "0 \<le> c" "c \<le> 1 / 2" "2 ^ 32 * c < 1" "eps * (2 + eps) \<le> c"
    by (simp_all add: eps_def c_def)
  have eps: "0 \<le> eps" by (simp add: eps_def)
  obtain r where r: "fp_div round64 (int_to_double a) (int_to_double b) = Fin r"
    "2 powi (- 31) \<le> r" "r \<le> 2 powi 31" "\<bar>r - x0\<bar> \<le> eps * x0"
    using resample_ratio [OF a b] by (auto simp: x0_def eps_def)
  have rpos: "0 < r" using r(2) by (rule less_le_trans [rotated]) simp
  have x0pos: "0 < x0" using a b by (simp add: x0_def)
  have rn: "0 \<le> real_of_int n" using n by simp
  have X0: "0 \<le> X" using rn x0pos by (simp add: X_def)
  obtain p where p: "round64 (of_int n * r) = Fin p"
    using m n r(1) by (cases "round64 (of_int n * r)") (simp_all add: int_to_double_exact)
  have p0: "0 \<le> p"
    using p rn rpos round_unbounded_nonneg [of "of_int n * r" 53 "- 1022"]
    by (simp add: round64_def round_to_finite)
  have mp: "m = \<lfloor>p\<rfloor>" "p < 2 ^ 31"
    using m n p p0 r(1) by (auto simp: int_to_double_exact Let_def floor_less_iff split: if_splits)
  have e1: "\<bar>p - of_int n * r\<bar> \<le> eps * (of_int n * r)"
  proof (cases "n = 0")
    case True
    with p show ?thesis by simp
  next
    case False
    with n have "1 \<le> real_of_int n" by simp
    have "2 powi (- 1022) \<le> (2::real) powi (- 31)" by (simp only: two_powi_le_iff)
    also have "\<dots> \<le> 1 * r" using r(2) by simp
    also have "\<dots> \<le> of_int n * r" using \<open>1 \<le> real_of_int n\<close> rpos by (intro mult_right_mono) auto
    finally have "2 powi (- 1022) \<le> \<bar>of_int n * r\<bar>" using rpos rn by (simp add: abs_mult)
    then have "\<bar>p - of_int n * r\<bar> \<le> 2 powi (- int 53) * \<bar>of_int n * r\<bar>"
      using p unfolding round64_def by (intro round_to_error) auto
    moreover have "\<bar>of_int n * r\<bar> = of_int n * r" using rpos rn by simp
    ultimately show ?thesis by (simp only: eps_def) simp
  qed
  have e3: "\<bar>of_int n * r - X\<bar> \<le> eps * X"
  proof -
    have "\<bar>of_int n * r - X\<bar> = of_int n * \<bar>r - x0\<bar>"
      using rn by (simp add: X_def abs_mult flip: right_diff_distrib)
    also have "\<dots> \<le> of_int n * (eps * x0)" using rn r(4) by (intro mult_left_mono) auto
    finally show ?thesis by (simp add: X_def algebra_simps)
  qed
  have nr: "of_int n * r \<le> X + eps * X" using e3 by (simp add: abs_le_iff)
  have "\<bar>p - X\<bar> \<le> \<bar>p - of_int n * r\<bar> + \<bar>of_int n * r - X\<bar>" by simp
  also have "\<dots> \<le> eps * (of_int n * r) + eps * X" using e1 e3 by simp
  also have "\<dots> \<le> eps * (X + eps * X) + eps * X"
    using nr eps by (intro add_right_mono mult_left_mono) auto
  also have "\<dots> = X * (eps * (2 + eps))" by (simp add: algebra_simps)
  also have "\<dots> \<le> X * c" using X0 c(4) by (intro mult_left_mono) auto
  finally have d: "\<bar>p - X\<bar> \<le> X * c" .
  have "X - p \<le> \<bar>p - X\<bar>" by simp
  with d have low: "X - X * c \<le> p" by linarith
  have "X * c \<le> X * (1 / 2)" using X0 c(2) by (intro mult_left_mono) auto
  with low mp(2) have "X < 2 ^ 32" by simp
  then have "X * c \<le> 2 ^ 32 * c" using c(1) by (intro mult_right_mono) auto
  with d c(3) have "\<bar>p - X\<bar> < 1" by linarith
  then have "p < X + 1" "X - 1 < p" by (simp_all add: abs_less_iff)
  then have le: "p \<le> X + 1" "X - 1 \<le> p" by simp_all
  have "\<lfloor>p\<rfloor> \<le> \<lfloor>X + 1\<rfloor>" using le(1) by (rule floor_mono)
  moreover have "\<lfloor>X - 1\<rfloor> \<le> \<lfloor>p\<rfloor>" using le(2) by (rule floor_mono)
  ultimately have "\<bar>\<lfloor>p\<rfloor> - \<lfloor>X\<rfloor>\<bar> \<le> 1" by simp
  then show ?thesis by (simp add: mp(1) X_def x0_def)
qed

text \<open>
  C1, as the source has it. For positive, different rates and a buffer of length \<open>N\<close>,
  when the \<^verbatim>\<open>double\<close> product \<open>N * (target_rate / source_rate)\<close> truncates to a 32-bit
  integer, \<^verbatim>\<open>resampleAudio\<close> returns an array of that truncated length, which is within one of
  \<open>\<lfloor>N * target_rate / source_rate\<rfloor>\<close>. For every output index \<open>i\<close>, with
  \<open>source_index = i / ratio\<close> in \<^verbatim>\<open>double\<close>, \<open>index\<close> its truncation and
  \<open>fraction = source_index - index\<close>: the output sample is \<open>input[N - 1]\<close> if
  \<open>index \<ge> N - 1\<close>, and otherwise the \<^verbatim>\<open>float\<close> nearest to the \<^verbatim>\<open>double\<close> value
  \<open>input[index] * (1 - fraction) + input[index + 1] * fraction\<close>.
\<close>

theorem resampleAudio_linear_interpolation:
  assumes "audio_data < length (float_arrays env)" and "no_failure env"
    and "float_arrays env ! audio_data = audio" and "length audio < 2 ^ 31"
    and "0 < sint source_rate" and "0 < sint target_rate" and "source_rate \<noteq> target_rate"
    and "ratio = fp_div round64 (int_to_double (sint target_rate))
                   (int_to_double (sint source_rate))"
    and "double_to_jsize (fp_mul round64 (int_to_double (int (length audio))) ratio) =
           Some target_length"
  shows "\<exists>out. returned_floats (resampleAudio env audio_data source_rate target_rate) = Some out \<and>
               int (length out) = target_length \<and>
               \<bar>target_length -
                  \<lfloor>real (length audio) * real_of_int (sint target_rate) /
                     real_of_int (sint source_rate)\<rfloor>\<bar> \<le> 1 \<and>
               (\<forall>i<length out.
                  \<exists>index. double_to_jsize (fp_div round64 (int_to_double (int i)) ratio) =
                            Some index \<and>
                          0 \<le> index \<and>
                          out ! i =
                            (if int (length audio) - 1 \<le> index then audio ! (length audio - 1)
                             else (let source_index = fp_div round64 (int_to_double (int i)) ratio;
                                       fraction = fp_sub round64 source_index (int_to_double index)
                                   in double_to_float
                                        (fp_add round64
                                           (fp_mul round64 (audio ! nat index)
                                              (fp_sub round64 (Fin 1) fraction))
                                           (fp_mul round64 (audio ! nat (index + 1)) fraction)))))"
proof -
  have s: "1 \<le> sint source_rate" "sint source_rate < 2 ^ 31"
    using assms(5) sint_lt [of source_rate] by simp_all
  have t: "1 \<le> sint target_rate" "sint target_rate < 2 ^ 31"
    using assms(6) sint_lt [of target_rate] by simp_all
  have n: "0 \<le> int (length audio)" "int (length audio) < 2 ^ 31" using assms(4) by simp_all
  have "\<bar>target_length -
          \<lfloor>real_of_int (int (length audio)) * real_of_int (sint target_rate) /
             real_of_int (sint source_rate)\<rfloor>\<bar> \<le> 1"
    using assms(9) unfolding assms(8) by (rule target_length_near_floor [OF t s n])
  then show ?thesis
    using resampleAudio_result [OF assms] by (simp add: interpolate_def)
qed

lemma small_doubles:
  "round64 (1 / 2) = Fin (1 / 2)" "round64 1 = Fin 1" "round64 (3 / 2) = Fin (3 / 2)"
  "round64 2 = Fin 2" "round64 3 = Fin 3" "round64 4 = Fin 4" "round32 (1 / 2) = Fin (1 / 2)"
  "round32 1 = Fin 1"
  using round_to_exact [of 1 53 "- 1022" "- 1" 1023] round_to_exact [of 3 53 "- 1022" "- 1" 1023]
    round64_int [of 1] round64_int [of 2] round64_int [of 3] round64_int [of 4]
    round_to_exact [of 1 24 "- 126" "- 1" 127] round32_int [of 1]
  by (simp_all add: round64_def round32_def)

text \<open>Two samples 0.0, 1.0 from 8000 Hz to 16000 Hz: 0.0, 0.5, 1.0, 1.0.\<close>

theorem resampleAudio_linear_interpolation_witness:
  "0 < length (float_arrays (env_of [] [Fin 0, Fin 1] [])) \<and>
   no_failure (env_of [] [Fin 0, Fin 1] []) \<and>
   float_arrays (env_of [] [Fin 0, Fin 1] []) ! 0 = [Fin 0, Fin 1] \<and>
   length [Fin 0, Fin 1] < (2::nat) ^ 31 \<and>
   0 < sint (8000 :: jint) \<and> 0 < sint (16000 :: jint) \<and> (8000 :: jint) \<noteq> 16000 \<and>
   double_to_jsize
     (fp_mul round64 (int_to_double (int (length [Fin 0, Fin 1])))
        (fp_div round64 (int_to_double (sint (16000 :: jint)))
           (int_to_double (sint (8000 :: jint))))) = Some 4 \<and>
   returned_floats (resampleAudio (env_of [] [Fin 0, Fin 1] []) 0 8000 16000) =
     Some [Fin 0, Fin (1 / 2), Fin 1, Fin 1]"
proof -
  let ?env = "env_of [] [Fin 0, Fin 1] []"
  let ?ratio = "fp_div round64 (int_to_double (sint (16000 :: jint)))
                  (int_to_double (sint (8000 :: jint)))"
  have i: "int_to_double 0 = Fin 0" "int_to_double 1 = Fin 1" "int_to_double 2 = Fin 2"
    "int_to_double 3 = Fin 3" "int_to_double 8000 = Fin 8000" "int_to_double 16000 = Fin 16000"
    using int_to_double_exact [of 0] int_to_double_exact [of 1] int_to_double_exact [of 2]
      int_to_double_exact [of 3] int_to_double_exact [of 8000] int_to_double_exact [of 16000]
    by simp_all
  have ratio: "?ratio = Fin 2" by (simp add: i small_doubles)
  have h: "0 < length (float_arrays ?env)" "no_failure ?env"
    "float_arrays ?env ! 0 = [Fin 0, Fin 1]" "length [Fin 0, Fin 1] < (2::nat) ^ 31"
    "0 < sint (8000 :: jint)" "0 < sint (16000 :: jint)" "(8000 :: jint) \<noteq> 16000"
    by (simp_all add: env_of_def no_failure_def)
  have len: "double_to_jsize (fp_mul round64 (int_to_double (int (length [Fin 0, Fin 1]))) ?ratio) =
               Some 4"
    by (simp add: ratio i small_doubles)
  from resampleAudio_linear_interpolation [OF h refl len]
  obtain out where out:
    "returned_floats (resampleAudio ?env 0 8000 16000) = Some out" "length out = 4"
    and nth: "\<And>i. i < 4 \<Longrightarrow>
       \<exists>index. double_to_jsize (fp_div round64 (int_to_double (int i)) ?ratio) = Some index \<and>
          0 \<le> index \<and>
          out ! i =
            (if int (length [Fin 0, Fin 1 :: fp]) - 1 \<le> index
             then [Fin 0, Fin 1] ! (length [Fin 0, Fin 1 :: fp] - 1)
             else (let source_index = fp_div round64 (int_to_double (int i)) ?ratio;
                       fraction = fp_sub round64 source_index (int_to_double index)
                   in double_to_float
                        (fp_add round64
                           (fp_mul round64 ([Fin 0, Fin 1] ! nat index)
                              (fp_sub round64 (Fin 1) fraction))
                           (fp_mul round64 ([Fin 0, Fin 1] ! nat (index + 1)) fraction))))"
    by auto
  have "out ! 0 = Fin 0" using nth [of 0] by (auto simp: ratio i small_doubles fp_sub_def)
  moreover have "out ! 1 = Fin (1 / 2)"
    using nth [of 1] by (auto simp: ratio i small_doubles fp_sub_def)
  moreover have "out ! 2 = Fin 1" using nth [of 2] by (auto simp: ratio i small_doubles fp_sub_def)
  moreover have "out ! 3 = Fin 1" using nth [of 3] by (auto simp: ratio i small_doubles fp_sub_def)
  ultimately have "out = [Fin 0, Fin (1 / 2), Fin 1, Fin 1]"
    using out(2) by (intro nth_equalityI) (auto simp: less_Suc_eq numeral_eq_Suc)
  then show ?thesis using h len out(1) by simp
qed

text \<open>
  The length is not always the exact quotient: 11 samples from 11000 Hz to 15000 Hz give
  14 samples, since the \<^verbatim>\<open>double\<close> nearest to \<open>15 / 11\<close> is below \<open>15 / 11\<close> and the product
  with 11 rounds to the \<^verbatim>\<open>double\<close> just below 15; \<open>\<lfloor>11 * 15000 / 11000\<rfloor>\<close> is 15.
\<close>

lemma target_length_11_samples:
  "double_to_jsize
     (fp_mul round64 (int_to_double 11)
        (fp_div round64 (int_to_double (sint (15000 :: jint))) (int_to_double (sint (11000 :: jint))))) =
   Some 14"
proof -
  have i: "int_to_double 11 = Fin 11" "int_to_double 15000 = Fin 15000"
    "int_to_double 11000 = Fin 11000"
    using int_to_double_exact [of 11] int_to_double_exact [of 15000]
      int_to_double_exact [of 11000] by simp_all
  have 1: "round64 (15 / 11) = Fin (6141272219141585 / 4503599627370496)"
   
      using round_to_certificate [of 0 "15 / 11" "2 powi (- 52)" "- 1022" 53 6141272219141585 1023]
      by (simp add: round64_def)
  have 2: "round64 (67553994410557435 / 4503599627370496) = Fin (8444249301319679 / 562949953421312)"
   
      using round_to_certificate [of 3 "67553994410557435 / 4503599627370496" "2 powi (- 49)" "- 1022" 53 8444249301319679 1023]
      by (simp add: round64_def)
  show ?thesis by (simp add: i 1 2)
qed

theorem resampleAudio_length_counterexample:
  "map_option length
     (returned_floats (resampleAudio (env_of [] (replicate 11 (Fin 0)) []) 0 11000 15000)) =
     Some 14 \<and>
   \<lfloor>11 * 15000 / (11000 :: real)\<rfloor> = 15"
proof -
  let ?env = "env_of [] (replicate 11 (Fin 0)) []"
  have "\<exists>out. returned_floats (resampleAudio ?env 0 11000 15000) = Some out \<and>
              int (length out) = 14 \<and>
              (\<forall>i<length out.
                  \<exists>index. double_to_jsize (fp_div round64 (int_to_double (int i))
                     (fp_div round64 (int_to_double (sint (15000 :: jint)))
                        (int_to_double (sint (11000 :: jint))))) = Some index \<and>
                          0 \<le> index \<and>
                   out ! i = interpolate (replicate 11 (Fin 0))
                     (fp_div round64 (int_to_double (sint (15000 :: jint)))
                        (int_to_double (sint (11000 :: jint)))) i index)"
  proof (rule resampleAudio_result)
    show "double_to_jsize
     (fp_mul round64 (int_to_double (int (length (replicate 11 (Fin 0)))))
        (fp_div round64 (int_to_double (sint (15000 :: jint))) (int_to_double (sint (11000 :: jint))))) =
       Some 14"
      using target_length_11_samples by simp
  qed (simp_all add: env_of_def no_failure_def)
  then obtain out where "returned_floats (resampleAudio ?env 0 11000 15000) = Some out"
    "int (length out) = 14" by blast
  then have "map_option length (returned_floats (resampleAudio ?env 0 11000 15000)) = Some 14"
    by simp
  then show ?thesis by simp
qed

text \<open>
  The condition on the product is needed: two samples from 1 Hz to 2147483647 Hz give the
  product 4294967294, which is not a \<^verbatim>\<open>jsize\<close>, and the conversion is undefined.
\<close>

lemma resampleAudio_length_overflow:
  "fst (resampleAudio (env_of [] [Fin 0, Fin 0] []) 0 1 2147483647) = Inl FloatToIntOverflow"
proof -
  have i: "int_to_double 1 = Fin 1" "int_to_double 2 = Fin 2"
    "int_to_double 2147483647 = Fin 2147483647"
    using int_to_double_exact [of 1] int_to_double_exact [of 2]
      int_to_double_exact [of 2147483647] by simp_all
  have r: "round64 2147483647 = Fin 2147483647" "round64 4294967294 = Fin 4294967294"
    using round64_int [of 2147483647] round64_int [of 4294967294] by simp_all
  show ?thesis
    by (simp add: resampleAudio_def jni_defs next_call_fails_def env_of_def i r)
qed

section \<open>Normalisation\<close>

lemma max_abs_loop_foldl:
  assumes "len \<le> length audio"
  shows "max_abs_loop audio len i max_val =
           foldl (\<lambda>m x. if fp_less m (fp_abs x) then fp_abs x else m) max_val
             (drop i (take len audio))"
  using assms
proof (induction audio len i max_val rule: max_abs_loop.induct)
  case (1 audio len i max_val)
  show ?case
  proof (cases "i < len")
    case True
    then have "drop i (take len audio) = audio ! i # drop (Suc i) (take len audio)"
      using "1.prems" by (simp add: Cons_nth_drop_Suc [symmetric])
    then show ?thesis using True 1 by (subst max_abs_loop.simps) (simp add: Let_def)
  next
    case False
    then show ?thesis by (subst max_abs_loop.simps) simp
  qed
qed

lemma foldl_max_abs_finite:
  "foldl (\<lambda>m x. if fp_less m (fp_abs x) then fp_abs x else m) (Fin a) (map Fin ys) =
     Fin (foldl (\<lambda>m y. max m \<bar>y\<bar>) a ys)"
proof (induction ys arbitrary: a)
  case Nil
  show ?case by simp
next
  case (Cons y ys)
  have "(if a < \<bar>y\<bar> then \<bar>y\<bar> else a) = max a \<bar>y\<bar>" by (simp add: max_def)
  then show ?case using Cons [of "max a \<bar>y\<bar>"] by (simp split: if_splits)
qed

lemma max_abs_loop_finite:
  "max_abs_loop (map Fin ys) (length ys) 0 (Fin 0) = Fin (peak_abs ys)"
  by (simp add: max_abs_loop_foldl foldl_max_abs_finite peak_abs_def)

lemma foldl_max_ge: "(a::real) \<le> foldl (\<lambda>m y. max m \<bar>y\<bar>) a ys"
proof (induction ys arbitrary: a)
  case (Cons y ys)
  have "a \<le> max a \<bar>y\<bar>" by simp
  also have "\<dots> \<le> foldl (\<lambda>m y. max m \<bar>y\<bar>) (max a \<bar>y\<bar>) ys" by (rule Cons)
  finally show ?case by simp
qed simp

lemma foldl_max_upper:
  "y \<in> set ys \<Longrightarrow> \<bar>y\<bar> \<le> foldl (\<lambda>m y. max m \<bar>y\<bar>) (a::real) ys"
proof (induction ys arbitrary: a)
  case (Cons z zs)
  show ?case
  proof (cases "y = z")
    case True
    have "\<bar>y\<bar> \<le> max a \<bar>z\<bar>" using True by simp
    also have "\<dots> \<le> foldl (\<lambda>m y. max m \<bar>y\<bar>) (max a \<bar>z\<bar>) zs" by (rule foldl_max_ge)
    finally show ?thesis by simp
  next
    case False
    with Cons.prems have "y \<in> set zs" by simp
    then show ?thesis using Cons.IH by simp
  qed
qed simp

lemma foldl_max_attained:
  "foldl (\<lambda>m y. max m \<bar>y\<bar>) (a::real) ys = a \<or> (\<exists>y\<in>set ys. foldl (\<lambda>m y. max m \<bar>y\<bar>) a ys = \<bar>y\<bar>)"
proof (induction ys arbitrary: a)
  case (Cons z zs)
  from Cons [of "max a \<bar>z\<bar>"] show ?case by (auto simp: max_def split: if_splits)
qed simp

lemma peak_abs_upper: "y \<in> set ys \<Longrightarrow> \<bar>y\<bar> \<le> peak_abs ys"
  unfolding peak_abs_def by (rule foldl_max_upper)

lemma peak_abs_attained: "0 < peak_abs ys \<Longrightarrow> \<exists>y\<in>set ys. \<bar>y\<bar> = peak_abs ys"
  unfolding peak_abs_def using foldl_max_attained [of 0 ys] by auto

lemma peak_abs_eqI:
  assumes "\<forall>y\<in>set ys. \<bar>y\<bar> \<le> b" and "\<exists>y\<in>set ys. \<bar>y\<bar> = b"
  shows "peak_abs ys = b"
proof -
  have "0 \<le> b" using assms(2) by auto
  have "peak_abs ys \<le> b"
  proof (cases "0 < peak_abs ys")
    case True
    then show ?thesis using peak_abs_attained [of ys] assms(1) by auto
  next
    case False
    then show ?thesis using \<open>0 \<le> b\<close> by simp
  qed
  moreover have "b \<le> peak_abs ys" using assms(2) peak_abs_upper by auto
  ultimately show ?thesis by simp
qed

lemma normalize_loop_length [simp]:
  "length (normalize_loop audio scale len i normalized) = length normalized"
proof (induction audio scale len i normalized rule: normalize_loop.induct)
  case (1 audio scale len i normalized)
  then show ?case by (subst normalize_loop.simps) simp
qed

lemma normalize_loop_nth:
  "k < length normalized \<Longrightarrow>
   normalize_loop audio scale len i normalized ! k =
     (if i \<le> k \<and> k < len then fp_mul round32 (audio ! k) scale else normalized ! k)"
proof (induction audio scale len i normalized rule: normalize_loop.induct)
  case (1 audio scale len i normalized)
  show ?case
  proof (cases "i < len")
    case True
    with 1 show ?thesis
      by (subst normalize_loop.simps) (auto simp: nth_list_update not_less_eq_eq le_antisym)
  next
    case False
    then show ?thesis by (subst normalize_loop.simps) auto
  qed
qed

lemma normalize_loop_map:
  assumes "length normalized = length audio"
  shows "normalize_loop audio scale (length audio) 0 normalized =
           map (\<lambda>x. fp_mul round32 x scale) audio"
  using assms by (intro nth_equalityI) (simp_all add: normalize_loop_nth)

lemma normalizeAudio_silent:
  assumes "audio_data < length (float_arrays env)" and "no_failure env"
    and "fp_eq (max_abs_loop (float_arrays env ! audio_data)
                  (length (float_arrays env ! audio_data)) 0 (Fin 0)) (Fin 0)"
  shows "fst (normalizeAudio env audio_data target_level) = Inr (Some audio_data) \<and>
         float_arrays (snd (normalizeAudio env audio_data target_level)) = float_arrays env"
  using assms
  by (simp add: normalizeAudio_def jni_defs next_call_succeeds not_in_tl no_failure_def Let_def)

lemma normalizeAudio_scaled:
  assumes "audio_data < length (float_arrays env)" and "no_failure env"
    and "\<not> fp_eq (max_abs_loop (float_arrays env ! audio_data)
                  (length (float_arrays env ! audio_data)) 0 (Fin 0)) (Fin 0)"
  shows "fst (normalizeAudio env audio_data target_level) = Inr (Some (length (float_arrays env))) \<and>
         returned_floats (normalizeAudio env audio_data target_level) =
           Some (map (\<lambda>x. fp_mul round32 x
                        (fp_div round32 target_level
                           (max_abs_loop (float_arrays env ! audio_data)
                              (length (float_arrays env ! audio_data)) 0 (Fin 0))))
                   (float_arrays env ! audio_data))"
  using assms
  by (simp add: normalizeAudio_def jni_defs next_call_succeeds not_in_tl no_failure_def Let_def
      returned_floats_def normalize_loop_map nth_append)

text \<open>
  The running maximum in general: comparisons with NaN are false, so that NaN samples are
  passed over, and the result is the largest of the initial value and the absolute values of
  the samples that are not NaN.
\<close>

lemma fp_abs_NaN [simp]: "fp_abs x = NaN \<longleftrightarrow> x = NaN"
  by (cases x) simp_all

lemma fp_less_irrefl [simp]: "\<not> fp_less a a"
  by (cases a) simp_all

lemma fp_less_asym: "fp_less a b \<Longrightarrow> \<not> fp_less b a"
  by (cases a; cases b) simp_all

lemma fp_less_NaN [simp]: "\<not> fp_less a NaN"
  by (cases a) simp_all

lemma fp_not_less_trans:
  "a \<noteq> NaN \<Longrightarrow> b \<noteq> NaN \<Longrightarrow> c \<noteq> NaN \<Longrightarrow> \<not> fp_less a b \<Longrightarrow> \<not> fp_less b c \<Longrightarrow> \<not> fp_less a c"
  by (cases a; cases b; cases c) simp_all

lemma foldl_max_abs_peak:
  assumes "m \<noteq> NaN"
    and "r = foldl (\<lambda>m x. if fp_less m (fp_abs x) then fp_abs x else m) m xs"
  shows "r \<noteq> NaN \<and> \<not> fp_less r m \<and>
         (\<forall>x\<in>set xs. x \<noteq> NaN \<longrightarrow> \<not> fp_less r (fp_abs x)) \<and>
         (r = m \<or> (\<exists>x\<in>set xs. x \<noteq> NaN \<and> r = fp_abs x))"
  using assms
proof (induction xs arbitrary: m)
  case Nil
  then show ?case by simp
next
  case (Cons x xs)
  define m1 where "m1 = (if fp_less m (fp_abs x) then fp_abs x else m)"
  have r: "r = foldl (\<lambda>m x. if fp_less m (fp_abs x) then fp_abs x else m) m1 xs"
    using Cons.prems(2) by (simp add: m1_def)
  have xn: "x \<noteq> NaN" if "fp_less m (fp_abs x)"
  proof
    assume "x = NaN"
    with that show False by simp
  qed
  have m1: "m1 \<noteq> NaN" using Cons.prems(1) xn by (auto simp: m1_def)
  have ge_m: "\<not> fp_less m1 m" by (auto simp: m1_def dest: fp_less_asym)
  have ge_x: "\<not> fp_less m1 (fp_abs x)" by (auto simp: m1_def)
  have from_x: "m1 = m \<or> (x \<noteq> NaN \<and> m1 = fp_abs x)" using xn by (auto simp: m1_def)
  from Cons.IH [OF m1 r] have ih: "r \<noteq> NaN" "\<not> fp_less r m1"
    "\<forall>y\<in>set xs. y \<noteq> NaN \<longrightarrow> \<not> fp_less r (fp_abs y)"
    "r = m1 \<or> (\<exists>y\<in>set xs. y \<noteq> NaN \<and> r = fp_abs y)"
    by blast+
  have 1: "\<not> fp_less r m"
    using fp_not_less_trans [OF ih(1) m1 Cons.prems(1) ih(2) ge_m] .
  have 2: "\<not> fp_less r (fp_abs x)" if "x \<noteq> NaN"
    using fp_not_less_trans [OF ih(1) m1 _ ih(2) ge_x] that by simp
  have 3: "r = m \<or> (\<exists>y\<in>set (x # xs). y \<noteq> NaN \<and> r = fp_abs y)"
    using ih(4) from_x by auto
  from ih(1) 1 2 ih(3) 3 show ?case by simp
qed

lemma max_abs_loop_peak:
  assumes "max_val = max_abs_loop audio (length audio) 0 (Fin 0)"
  shows "max_val \<noteq> NaN \<and>
         (\<forall>x\<in>set audio. x \<noteq> NaN \<longrightarrow> \<not> fp_less max_val (fp_abs x)) \<and>
         (max_val = Fin 0 \<or> (\<exists>x\<in>set audio. x \<noteq> NaN \<and> max_val = fp_abs x))"
proof -
  have "max_val = foldl (\<lambda>m x. if fp_less m (fp_abs x) then fp_abs x else m) (Fin 0) audio"
    using assms by (simp add: max_abs_loop_foldl)
  from foldl_max_abs_peak [OF _ this] show ?thesis by simp
qed

text \<open>
  Scaling finite samples \<open>ys\<close> with peak \<open>M\<close> by the \<^verbatim>\<open>float\<close> quotient \<open>s\<close> of \<open>l\<close> and \<open>M\<close>. If
  the products are finite, they are the roundings of \<open>y * s\<close>, and so is \<open>s\<close> of \<open>l / M\<close>.
\<close>

lemma finite_roundings:
  "map (\<lambda>y. round32 (f y)) ys = map Fin os \<Longrightarrow>
   os = map (\<lambda>y. round_unbounded 24 (- 126) (f y)) ys"
proof (induction ys arbitrary: os)
  case Nil
  then show ?case by simp
next
  case (Cons y ys)
  then obtain v vs where os: "os = v # vs" by (cases os) auto
  with Cons.prems have "round32 (f y) = Fin v" "map (\<lambda>y. round32 (f y)) ys = map Fin vs"
    by simp_all
  then show ?case using Cons.IH [of vs] os by (simp add: round32_def round_to_finite)
qed

lemma finite_products_finite_scale:
  assumes M: "0 < peak_abs ys"
    and os: "map (\<lambda>x. fp_mul round32 x (fp_div round32 (Fin l) (Fin (peak_abs ys)))) (map Fin ys) =
             map Fin os"
  shows "\<exists>s. round32 (l / peak_abs ys) = Fin s"
proof (rule ccontr)
  assume inf: "\<nexists>s. round32 (l / peak_abs ys) = Fin s"
  obtain y where y: "y \<in> set ys" "\<bar>y\<bar> = peak_abs ys" using peak_abs_attained [OF M] by auto
  then have y0: "y \<noteq> 0" using M by auto
  have d: "fp_div round32 (Fin l) (Fin (peak_abs ys)) = round32 (l / peak_abs ys)"
    using M by simp
  have "round32 (l / peak_abs ys) = PInf \<or> round32 (l / peak_abs ys) = NInf"
    using inf
    by (cases "round32 (l / peak_abs ys)")
       (simp_all add: round32_def round_to_def Let_def split: if_splits)
  then have "\<nexists>v. fp_mul round32 (Fin y) (fp_div round32 (Fin l) (Fin (peak_abs ys))) = Fin v"
    unfolding d using y0 by (auto simp: inf_signed_def split: if_splits)
  moreover have "fp_mul round32 (Fin y) (fp_div round32 (Fin l) (Fin (peak_abs ys))) \<in>
                   set (map Fin os)"
    using y(1) unfolding os [symmetric] by auto
  ultimately show False by auto
qed

text \<open>
  The peak of the finite products is the rounding of \<open>M * s\<close>, which is \<open>l\<close> up to the two
  roundings; it is 0 when \<open>l\<close> is.
\<close>

lemma normalized_peak:
  assumes M: "0 < peak_abs ys" and l: "0 \<le> l"
    and s: "round32 (l / peak_abs ys) = Fin s"
    and os: "map (\<lambda>x. fp_mul round32 x (Fin s)) (map Fin ys) = map Fin os"
  shows "\<bar>peak_abs os - l\<bar> \<le> l / 2 ^ 22 + (peak_abs ys + 1) / 2 ^ 149"
    and "l = 0 \<Longrightarrow> peak_abs os = 0"
proof -
  define M where "M = peak_abs ys"
  define u :: real where "u = 2 powi (- 24)"
  define h :: real where "h = 2 powi (- 150)"
  have u: "0 \<le> u" "u * (2 + u) \<le> 1 / 2 ^ 22" by (simp_all add: u_def)
  have h: "0 \<le> h" "h * (1 + u) \<le> 1 / 2 ^ 149" "h \<le> 1 / 2 ^ 149" by (simp_all add: h_def u_def)
  have Mpos: "0 < M" using M by (simp add: M_def)
  have su: "s = round_unbounded 24 (- 126) (l / M)"
    using s by (simp add: round32_def round_to_finite M_def)
  have s0: "0 \<le> s" unfolding su using l Mpos by (intro round_unbounded_nonneg) simp
  have "\<bar>s - l / M\<bar> \<le> 2 powi (- 24) * \<bar>l / M\<bar> + 2 powi (- 150)"
    using s by (intro round32_error) (simp add: M_def)
  then have serr: "\<bar>s - l / M\<bar> \<le> u * (l / M) + h" using l Mpos by (simp add: u_def h_def)
  have Ms: "\<bar>M * s - l\<bar> \<le> u * l + M * h"
  proof -
    have "M * s - l = M * (s - l / M)" using Mpos by (simp add: field_simps)
    then have "\<bar>M * s - l\<bar> = M * \<bar>s - l / M\<bar>" using Mpos by (simp add: abs_mult)
    also have "\<dots> \<le> M * (u * (l / M) + h)" using serr Mpos by (intro mult_left_mono) auto
    also have "\<dots> = u * l + M * h" using Mpos by (simp add: algebra_simps)
    finally show ?thesis .
  qed
  then have Ms_hi: "M * s \<le> l + u * l + M * h" by (simp add: abs_le_iff)
  have "map (\<lambda>y. round32 (y * s)) ys = map Fin os" using os by (simp add: comp_def)
  then have os_def: "os = map (\<lambda>y. round_unbounded 24 (- 126) (y * s)) ys"
    by (rule finite_roundings)
  define P where "P = round_unbounded 24 (- 126) (M * s)"
  have each: "\<bar>round_unbounded 24 (- 126) (y * s)\<bar> \<le> P" if "y \<in> set ys" for y
  proof -
    have "\<bar>y\<bar> \<le> M" using that by (simp add: M_def peak_abs_upper)
    then have "\<bar>y * s\<bar> \<le> M * s" using s0 by (simp add: abs_mult mult_right_mono)
    then have "round_unbounded 24 (- 126) \<bar>y * s\<bar> \<le> round_unbounded 24 (- 126) (M * s)"
      by (intro round_unbounded_mono) auto
    then show ?thesis by (simp add: round_unbounded_abs P_def)
  qed
  obtain y where y: "y \<in> set ys" "\<bar>y\<bar> = M" using peak_abs_attained [OF M] by (auto simp: M_def)
  have "\<bar>round_unbounded 24 (- 126) (y * s)\<bar> = P"
    using y(2) s0 by (simp add: round_unbounded_abs abs_mult P_def)
  then have "\<exists>v\<in>set os. \<bar>v\<bar> = P" using y(1) by (auto simp: os_def)
  moreover have "\<forall>v\<in>set os. \<bar>v\<bar> \<le> P" using each by (auto simp: os_def)
  ultimately have peak: "peak_abs os = P" by (intro peak_abs_eqI)
  have "round32 (M * s) = Fin P"
  proof -
    have "fp_mul round32 (Fin y) (Fin s) \<in> set (map Fin os)"
      using y(1) unfolding os [symmetric] by auto
    then obtain v where "round32 (y * s) = Fin v" by auto
    then have "\<bar>round_unbounded 24 (- 126) (y * s)\<bar> < 2 powi (127 + 1)"
      by (simp add: round32_def round_to_finite)
    then have "\<bar>P\<bar> < 2 powi (127 + 1)"
      using y(2) s0 by (simp add: round_unbounded_abs abs_mult P_def)
    then show ?thesis by (simp add: round32_def round_to_finite P_def)
  qed
  then have "\<bar>P - M * s\<bar> \<le> 2 powi (- 24) * \<bar>M * s\<bar> + 2 powi (- 150)" by (rule round32_error)
  then have Perr: "\<bar>P - M * s\<bar> \<le> u * (M * s) + h"
    using Mpos s0 by (simp add: u_def h_def abs_mult)
  have "\<bar>P - l\<bar> \<le> \<bar>P - M * s\<bar> + \<bar>M * s - l\<bar>" by simp
  also have "\<dots> \<le> (u * (M * s) + h) + (u * l + M * h)" using Perr Ms by simp
  also have "\<dots> \<le> (u * (l + u * l + M * h) + h) + (u * l + M * h)"
    using Ms_hi u(1) by (intro add_right_mono mult_left_mono) auto
  also have "\<dots> = l * (u * (2 + u)) + M * (h * (1 + u)) + h" by (simp add: algebra_simps)
  also have "\<dots> \<le> l * (1 / 2 ^ 22) + M * (1 / 2 ^ 149) + 1 / 2 ^ 149"
    using l Mpos u(2) h(2,3) by (intro add_mono mult_left_mono) auto
  finally show "\<bar>peak_abs os - l\<bar> \<le> l / 2 ^ 22 + (peak_abs ys + 1) / 2 ^ 149"
    by (simp add: peak M_def add_divide_distrib)
  show "peak_abs os = 0" if "l = 0"
    using that by (simp add: peak P_def su)
qed

text \<open>
  The products are finite when the samples are \<^verbatim>\<open>float\<close>s, \<open>l\<close> is below the largest \<^verbatim>\<open>float\<close>
  and \<open>l / M\<close> is at most the largest \<^verbatim>\<open>float\<close>.
\<close>

lemma normalized_finite:
  assumes M: "0 < peak_abs ys" and fl: "\<forall>y\<in>set ys. round32 y = Fin y"
    and l: "0 \<le> l" "l \<le> 2 ^ 128 - 2 ^ 105" and q: "l / peak_abs ys \<le> 2 ^ 128 - 2 ^ 104"
  shows "\<exists>s os. round32 (l / peak_abs ys) = Fin s \<and>
                map (\<lambda>x. fp_mul round32 x (Fin s)) (map Fin ys) = map Fin os"
proof -
  define M where "M = peak_abs ys"
  define F :: real where "F = of_int (2 ^ 24 - 1) * 2 powi 104"
  define u :: real where "u = 2 powi (- 24)"
  define h :: real where "h = 2 powi (- 150)"
  have F: "F = 2 ^ 128 - 2 ^ 104" by (simp add: F_def)
  have Mpos: "0 < M" using M by (simp add: M_def)
  obtain y where y: "y \<in> set ys" "\<bar>y\<bar> = M" using peak_abs_attained [OF M] by (auto simp: M_def)
  have "\<bar>y\<bar> < 2 powi (127 + 1)" using fl y(1) by (auto simp: round32_def round_to_finite)
  then have Mhi: "M < 2 ^ 128" using y(2) by simp
  have "\<bar>l / M\<bar> \<le> F" using q l(1) Mpos by (simp add: F M_def)
  then obtain s where s: "round32 (l / M) = Fin s" "s = round_unbounded 24 (- 126) (l / M)"
    using round32_in_range [of "l / M"] by (auto simp: F_def)
  have s0: "0 \<le> s" unfolding s(2) using l Mpos by (intro round_unbounded_nonneg) simp
  have "\<bar>s - l / M\<bar> \<le> 2 powi (- 24) * \<bar>l / M\<bar> + 2 powi (- 150)"
    using s(1) by (rule round32_error)
  then have serr: "\<bar>s - l / M\<bar> \<le> u * (l / M) + h" using l Mpos by (simp add: u_def h_def)
  have "\<bar>M * s - l\<bar> \<le> u * l + M * h"
  proof -
    have "M * s - l = M * (s - l / M)" using Mpos by (simp add: field_simps)
    then have "\<bar>M * s - l\<bar> = M * \<bar>s - l / M\<bar>" using Mpos by (simp add: abs_mult)
    also have "\<dots> \<le> M * (u * (l / M) + h)" using serr Mpos by (intro mult_left_mono) auto
    also have "\<dots> = u * l + M * h" using Mpos by (simp add: algebra_simps)
    finally show ?thesis .
  qed
  then have "M * s \<le> l + u * l + M * h" by (simp add: abs_le_iff)
  also have "\<dots> \<le> (2 ^ 128 - 2 ^ 105) + u * (2 ^ 128 - 2 ^ 105) + 2 ^ 128 * h"
    using l(2) Mhi by (intro add_mono mult_left_mono mult_right_mono) (simp_all add: u_def h_def)
  also have "\<dots> \<le> F" by (simp add: F u_def h_def)
  finally have Ms: "M * s \<le> F" .
  have "\<exists>v. fp_mul round32 (Fin y) (Fin s) = Fin v" if "y \<in> set ys" for y
  proof -
    have "\<bar>y\<bar> \<le> M" using that by (simp add: M_def peak_abs_upper)
    then have "\<bar>y * s\<bar> \<le> M * s" using s0 by (simp add: abs_mult mult_right_mono)
    with Ms have "\<bar>y * s\<bar> \<le> F" by simp
    then show ?thesis using round32_in_range [of "y * s"] by (auto simp: F_def)
  qed
  then have "\<exists>os. map (\<lambda>x. fp_mul round32 x (Fin s)) (map Fin ys) = map Fin os"
  proof (induction ys)
    case Nil
    then show ?case by simp
  next
    case (Cons z zs)
    then obtain v vs where "fp_mul round32 (Fin z) (Fin s) = Fin v"
      "map (\<lambda>x. fp_mul round32 x (Fin s)) (map Fin zs) = map Fin vs"
      by (metis list.set_intros(1) list.set_intros(2))
    then have "map (\<lambda>x. fp_mul round32 x (Fin s)) (map Fin (z # zs)) = map Fin (v # vs)"
      by simp
    then show ?case by blast
  qed
  then show ?thesis using s(1) by (auto simp: M_def)
qed

text \<open>
  C3, as the source has it. With \<open>max_val\<close> the running maximum of the absolute values that
  the source computes: if \<open>max_val\<close> is 0, \<^verbatim>\<open>normalizeAudio\<close> returns the reference it was
  given and creates no array; otherwise it returns a new array with
  \<open>output[i] = input[i] * (L / max_val)\<close> in \<^verbatim>\<open>float\<close> arithmetic. \<open>max_val\<close> is the largest of
  0 and the \<open>|input[i]|\<close> that are not NaN; when all samples are finite, it is their peak
  absolute value \<open>max |input[i]|\<close>, so that the two cases are those of a peak that is 0 and
  of one that is not. For finite samples that are not all 0 and
  a finite level \<open>L \<ge> 0\<close>: whenever all output samples are finite, their peak absolute value
  \<open>p\<close> satisfies \<open>|p - L| \<le> L / 2\<^sup>2\<^sup>2 + (max_val + 1) / 2\<^sup>1\<^sup>4\<^sup>9\<close>, and \<open>p = 0\<close> when \<open>L = 0\<close>; and
  all output samples are finite when the samples are \<^verbatim>\<open>float\<close>s, \<open>L\<close> is below the largest
  \<^verbatim>\<open>float\<close> (\<open>L \<le> 2\<^sup>1\<^sup>2\<^sup>8 - 2\<^sup>1\<^sup>0\<^sup>5\<close>) and \<open>L / max_val\<close> is at most the largest \<^verbatim>\<open>float\<close>
  (\<open>2\<^sup>1\<^sup>2\<^sup>8 - 2\<^sup>1\<^sup>0\<^sup>4\<close>).
\<close>

theorem normalizeAudio_scales_by_target_over_peak:
  assumes "audio_data < length (float_arrays env)" and "no_failure env"
    and "float_arrays env ! audio_data = audio"
    and "max_val = max_abs_loop audio (length audio) 0 (Fin 0)"
  shows "(fp_eq max_val (Fin 0) \<longrightarrow>
            fst (normalizeAudio env audio_data target_level) = Inr (Some audio_data) \<and>
            float_arrays (snd (normalizeAudio env audio_data target_level)) = float_arrays env) \<and>
         (\<not> fp_eq max_val (Fin 0) \<longrightarrow>
            fst (normalizeAudio env audio_data target_level) =
              Inr (Some (length (float_arrays env))) \<and>
            returned_floats (normalizeAudio env audio_data target_level) =
              Some (map (\<lambda>x. fp_mul round32 x (fp_div round32 target_level max_val)) audio)) \<and>
         (max_val \<noteq> NaN \<and>
          (\<forall>x\<in>set audio. x \<noteq> NaN \<longrightarrow> \<not> fp_less max_val (fp_abs x)) \<and>
          (max_val = Fin 0 \<or> (\<exists>x\<in>set audio. x \<noteq> NaN \<and> max_val = fp_abs x))) \<and>
         (\<forall>ys. audio = map Fin ys \<longrightarrow>
            max_val = Fin (peak_abs ys) \<and>
            (peak_abs ys = 0 \<longrightarrow>
               fst (normalizeAudio env audio_data target_level) = Inr (Some audio_data) \<and>
               float_arrays (snd (normalizeAudio env audio_data target_level)) =
                 float_arrays env) \<and>
            (peak_abs ys \<noteq> 0 \<longrightarrow>
               fst (normalizeAudio env audio_data target_level) =
                 Inr (Some (length (float_arrays env))) \<and>
               returned_floats (normalizeAudio env audio_data target_level) =
                 Some (map (\<lambda>x. fp_mul round32 x
                              (fp_div round32 target_level (Fin (peak_abs ys)))) audio))) \<and>
         (\<forall>ys l os. audio = map Fin ys \<and> target_level = Fin l \<and> 0 \<le> l \<and> 0 < peak_abs ys \<and>
                     returned_floats (normalizeAudio env audio_data target_level) =
                       Some (map Fin os) \<longrightarrow>
            \<bar>peak_abs os - l\<bar> \<le> l / 2 ^ 22 + (peak_abs ys + 1) / 2 ^ 149 \<and>
            (l = 0 \<longrightarrow> peak_abs os = 0)) \<and>
         (\<forall>ys l. audio = map Fin ys \<and> target_level = Fin l \<and> 0 \<le> l \<and> 0 < peak_abs ys \<and>
                  (\<forall>y\<in>set ys. round32 y = Fin y) \<and>
                  l \<le> 2 ^ 128 - 2 ^ 105 \<and> l / peak_abs ys \<le> 2 ^ 128 - 2 ^ 104 \<longrightarrow>
            (\<exists>os. returned_floats (normalizeAudio env audio_data target_level) =
                     Some (map Fin os)))"
proof -
  note silent = normalizeAudio_silent [OF assms(1,2), of target_level, unfolded assms(3),
      folded assms(4)]
  note scaled = normalizeAudio_scaled [OF assms(1,2), of target_level, unfolded assms(3),
      folded assms(4)]
  have finite: "max_val = Fin (peak_abs ys)" if "audio = map Fin ys" for ys
    using that assms(4) max_abs_loop_finite [of ys] by simp
  have 1: "fp_eq max_val (Fin 0) \<longrightarrow>
            fst (normalizeAudio env audio_data target_level) = Inr (Some audio_data) \<and>
            float_arrays (snd (normalizeAudio env audio_data target_level)) = float_arrays env"
    using silent by simp
  have 2: "\<not> fp_eq max_val (Fin 0) \<longrightarrow>
            fst (normalizeAudio env audio_data target_level) =
              Inr (Some (length (float_arrays env))) \<and>
            returned_floats (normalizeAudio env audio_data target_level) =
              Some (map (\<lambda>x. fp_mul round32 x (fp_div round32 target_level max_val)) audio)"
    using scaled by simp
  have 3: "max_val = Fin (peak_abs ys) \<and>
            (peak_abs ys = 0 \<longrightarrow>
               fst (normalizeAudio env audio_data target_level) = Inr (Some audio_data) \<and>
               float_arrays (snd (normalizeAudio env audio_data target_level)) =
                 float_arrays env) \<and>
            (peak_abs ys \<noteq> 0 \<longrightarrow>
               fst (normalizeAudio env audio_data target_level) =
                 Inr (Some (length (float_arrays env))) \<and>
               returned_floats (normalizeAudio env audio_data target_level) =
                 Some (map (\<lambda>x. fp_mul round32 x
                              (fp_div round32 target_level (Fin (peak_abs ys)))) audio))"
    if "audio = map Fin ys" for ys
    using 1 2 finite [OF that] by (simp add: fp_eq_def)
  have 4: "\<bar>peak_abs os - l\<bar> \<le> l / 2 ^ 22 + (peak_abs ys + 1) / 2 ^ 149 \<and>
            (l = 0 \<longrightarrow> peak_abs os = 0)"
    if a: "audio = map Fin ys \<and> target_level = Fin l \<and> 0 \<le> l \<and> 0 < peak_abs ys \<and>
           returned_floats (normalizeAudio env audio_data target_level) = Some (map Fin os)"
    for ys l os
  proof -
    from a have M: "0 < peak_abs ys" and l: "0 \<le> l" and au: "audio = map Fin ys"
      and tl: "target_level = Fin l"
      and ret: "returned_floats (normalizeAudio env audio_data target_level) = Some (map Fin os)"
      by blast+
    have "returned_floats (normalizeAudio env audio_data target_level) =
            Some (map (\<lambda>x. fp_mul round32 x (fp_div round32 target_level (Fin (peak_abs ys))))
                    audio)"
      using 3 [OF au] M by auto
    then have os: "map (\<lambda>x. fp_mul round32 x (fp_div round32 (Fin l) (Fin (peak_abs ys))))
                       (map Fin ys) = map Fin os"
      using ret unfolding au tl by (metis option.inject)
    obtain s where s: "round32 (l / peak_abs ys) = Fin s"
      using finite_products_finite_scale [OF M os] by blast
    then have "fp_div round32 (Fin l) (Fin (peak_abs ys)) = Fin s" using M by simp
    with os have "map (\<lambda>x. fp_mul round32 x (Fin s)) (map Fin ys) = map Fin os" by simp
    from normalized_peak [OF M l s this] show ?thesis by blast
  qed
  have 5: "\<exists>os. returned_floats (normalizeAudio env audio_data target_level) = Some (map Fin os)"
    if a: "audio = map Fin ys \<and> target_level = Fin l \<and> 0 \<le> l \<and> 0 < peak_abs ys \<and>
           (\<forall>y\<in>set ys. round32 y = Fin y) \<and>
           l \<le> 2 ^ 128 - 2 ^ 105 \<and> l / peak_abs ys \<le> 2 ^ 128 - 2 ^ 104"
    for ys l
  proof -
    from a have M: "0 < peak_abs ys" and au: "audio = map Fin ys"
      and tl: "target_level = Fin l" by blast+
    obtain s os where s: "round32 (l / peak_abs ys) = Fin s"
      "map (\<lambda>x. fp_mul round32 x (Fin s)) (map Fin ys) = map Fin os"
      using normalized_finite [of ys l] a by blast
    have d: "fp_div round32 (Fin l) (Fin (peak_abs ys)) = Fin s" using s(1) M by simp
    have "returned_floats (normalizeAudio env audio_data target_level) =
            Some (map (\<lambda>x. fp_mul round32 x (fp_div round32 target_level (Fin (peak_abs ys))))
                    audio)"
      using 3 [OF au] M by auto
    then have "returned_floats (normalizeAudio env audio_data target_level) =
                 Some (map Fin os)"
      unfolding au tl d s(2) .
    then show ?thesis by blast
  qed
  note max_abs_loop_peak [OF assms(4)]
  with 1 2 3 4 5 show ?thesis by blast
qed

text \<open>
  The samples 0.2, -0.5, 0.1 (as \<^verbatim>\<open>float\<close>s) and the target level 1.0 give 0.4, -1.0, 0.2, of
  peak 1; a silent buffer is returned as it is.
\<close>

theorem normalizeAudio_scales_by_target_over_peak_witness:
  "0 < length (float_arrays
         (env_of [] [Fin (13421773 / 67108864), Fin (- 1 / 2), Fin (13421773 / 134217728)] [])) \<and>
   no_failure (env_of [] [Fin (13421773 / 67108864), Fin (- 1 / 2), Fin (13421773 / 134217728)] []) \<and>
   max_abs_loop [Fin (13421773 / 67108864), Fin (- 1 / 2), Fin (13421773 / 134217728)]
     (length [Fin (13421773 / 67108864), Fin (- 1 / 2), Fin (13421773 / 134217728)]) 0 (Fin 0) =
     Fin (1 / 2) \<and>
   peak_abs [13421773 / 67108864, - 1 / 2, 13421773 / 134217728] = 1 / 2 \<and>
   returned_floats
     (normalizeAudio
        (env_of [] [Fin (13421773 / 67108864), Fin (- 1 / 2), Fin (13421773 / 134217728)] [])
        0 (Fin 1)) =
     Some (map Fin [13421773 / 33554432, - 1, 13421773 / 67108864]) \<and>
   \<bar>peak_abs [13421773 / 33554432, - 1, 13421773 / 67108864] - 1\<bar>
     \<le> 1 / 2 ^ 22 + (1 / 2 + 1) / 2 ^ 149 \<and>
   (\<exists>os. returned_floats
           (normalizeAudio
              (env_of [] [Fin (13421773 / 67108864), Fin (- 1 / 2), Fin (13421773 / 134217728)] [])
              0 (Fin 1)) = Some (map Fin os)) \<and>
   peak_abs [0, 0] = 0 \<and>
   fst (normalizeAudio (env_of [] [Fin 0, Fin 0] []) 0 (Fin 1)) = Inr (Some 0)"
proof -
  let ?ys = "[13421773 / 67108864, - 1 / 2, 13421773 / 134217728] :: real list"
  let ?os = "[13421773 / 33554432, - 1, 13421773 / 67108864] :: real list"
  let ?audio = "[Fin (13421773 / 67108864), Fin (- 1 / 2), Fin (13421773 / 134217728)]"
  let ?env = "env_of [] ?audio []"
  have h: "0 < length (float_arrays (env_of [] audio []))" "no_failure (env_of [] audio [])"
    "float_arrays (env_of [] audio []) ! 0 = audio" for audio
    by (simp_all add: env_of_def no_failure_def)
  have pk: "peak_abs ?ys = 1 / 2" by (simp add: peak_abs_def)
  have au: "?audio = map Fin ?ys" by simp
  note t = normalizeAudio_scales_by_target_over_peak [OF h refl, of _ "Fin 1"]
  have mv: "max_abs_loop ?audio (length ?audio) 0 (Fin 0) = Fin (1 / 2)"
    using t [of ?audio, THEN conjunct2, THEN conjunct2, THEN conjunct2, THEN conjunct1,
        rule_format, OF au,
        THEN conjunct1, unfolded pk] .
  have r: "round32 2 = Fin 2" "round32 (13421773 / 33554432) = Fin (13421773 / 33554432)"
    "round32 (- 1) = Fin (- 1)" "round32 (13421773 / 67108864) = Fin (13421773 / 67108864)"
    "round32 (13421773 / 134217728) = Fin (13421773 / 134217728)"
    "round32 (- 1 / 2) = Fin (- 1 / 2)"
    using round32_int [of 2] round32_int [of "- 1"]
      round_to_exact [of 13421773 24 "- 126" "- 25" 127]
      round_to_exact [of 13421773 24 "- 126" "- 26" 127]
      round_to_exact [of 13421773 24 "- 126" "- 27" 127]
      round_to_exact [of "- 1" 24 "- 126" "- 1" 127]
    by (simp_all add: round32_def)
  have out: "returned_floats (normalizeAudio ?env 0 (Fin 1)) = Some (map Fin ?os)"
    using t [of ?audio, THEN conjunct2, THEN conjunct2, THEN conjunct2, THEN conjunct1,
        rule_format, OF au,
        THEN conjunct2, THEN conjunct2, unfolded pk]
    by (simp add: r)
  have prem4: "?audio = map Fin ?ys \<and> Fin 1 = Fin 1 \<and> 0 \<le> (1::real) \<and> 0 < peak_abs ?ys \<and>
      returned_floats (normalizeAudio ?env 0 (Fin 1)) = Some (map Fin ?os)"
    using out unfolding pk by simp
  have bound: "\<bar>peak_abs ?os - 1\<bar> \<le> 1 / 2 ^ 22 + (1 / 2 + 1) / 2 ^ 149"
    using t [of ?audio, THEN conjunct2, THEN conjunct2, THEN conjunct2, THEN conjunct2,
        THEN conjunct1, rule_format, OF prem4, THEN conjunct1] unfolding pk .
  have prem5: "?audio = map Fin ?ys \<and> Fin 1 = Fin 1 \<and> 0 \<le> (1::real) \<and> 0 < peak_abs ?ys \<and>
      (\<forall>y\<in>set ?ys. round32 y = Fin y) \<and>
      (1::real) \<le> 2 ^ 128 - 2 ^ 105 \<and> 1 / peak_abs ?ys \<le> 2 ^ 128 - 2 ^ 104"
    unfolding pk using r by simp
  have ex: "\<exists>os. returned_floats (normalizeAudio ?env 0 (Fin 1)) = Some (map Fin os)"
    using t [of ?audio, THEN conjunct2, THEN conjunct2, THEN conjunct2, THEN conjunct2,
        THEN conjunct2, rule_format, OF prem5] .
  have pk0: "peak_abs [0, 0] = 0" by (simp add: peak_abs_def)
  have z: "[Fin 0, Fin 0] = map Fin [0, 0]" by simp
  have silent: "fst (normalizeAudio (env_of [] [Fin 0, Fin 0] []) 0 (Fin 1)) = Inr (Some 0)"
    using t [of "[Fin 0, Fin 0]", THEN conjunct2, THEN conjunct2, THEN conjunct2, THEN conjunct1,
        rule_format,
        OF z, THEN conjunct2, THEN conjunct1, rule_format, OF pk0] by simp
  from h(1,2) [of ?audio] mv pk out bound ex pk0 silent show ?thesis by blast
qed

text \<open>
  The claim as stated fails when the scale overflows: for the subnormal sample \<open>2\<^sup>-\<^sup>1\<^sup>3\<^sup>0\<close>
  followed by 0 and the target level 1.0, the scale \<open>1 / 2\<^sup>-\<^sup>1\<^sup>3\<^sup>0\<close> overflows to infinity, and
  the output is infinity followed by NaN.
\<close>

theorem normalizeAudio_peak_counterexample:
  "round32 (1 / 2 ^ 130) = Fin (1 / 2 ^ 130) \<and>
   returned_floats (normalizeAudio (env_of [] [Fin (1 / 2 ^ 130), Fin 0] []) 0 (Fin 1)) =
     Some [PInf, NaN]"
proof -
  have f: "round32 (1 / 2 ^ 130) = Fin (1 / 2 ^ 130)"
    using round_to_exact [of 1 24 "- 126" "- 130" 127]
    by (simp add: round32_def power_int_minus_divide)
  have "peak_abs [1 / 2 ^ 130, 0] = 1 / 2 ^ 130" by (simp add: peak_abs_def)
  then have m: "max_abs_loop [Fin (1 / 2 ^ 130), Fin 0] (length [Fin (1 / 2 ^ 130), Fin 0 :: fp]) 0
                  (Fin 0) = Fin (1 / 2 ^ 130)"
    using max_abs_loop_finite [of "[1 / 2 ^ 130, 0]"] by simp
  have "round32 (2 ^ 130) = PInf"
    unfolding round32_def by (rule round_to_overflow) simp_all
  then have o: "round32 1361129467683753853853498429727072845824 = PInf" by simp
  have "returned_floats (normalizeAudio (env_of [] [Fin (1 / 2 ^ 130), Fin 0] []) 0 (Fin 1)) =
     Some [PInf, NaN]"
    using normalizeAudio_scaled [of 0 "env_of [] [Fin (1 / 2 ^ 130), Fin 0] []" "Fin 1"] m
    by (simp add: env_of_def no_failure_def fp_eq_def o inf_signed_def)
  with f show ?thesis by simp
qed

end
